theory Spec2Isabelle
  imports Complex_Main "HOL-Library.Sublist"
begin

section \<open>Python string primitives used by the sources\<close>

text \<open>
  Python \<open>str\<close> values are modelled as \<open>string\<close> (lists of 8-bit characters), so the
  model covers the Latin-1 range of code points; \<open>len\<close> is \<open>length\<close>.
  Python \<open>float\<close> values are modelled as \<open>real\<close>: rounding of float arithmetic is
  idealised, comparisons and the order of operations are as in the source.
\<close>

definition is_space :: "char \<Rightarrow> bool" where
  \<comment> \<open>\<open>str.isspace\<close> on the code points below 256.\<close>
  "is_space c = (of_char c \<in> {9::nat, 10, 11, 12, 13, 28, 29, 30, 31, 32, 133, 160})"

definition strip :: "string \<Rightarrow> string" where
  \<comment> \<open>\<open>s.strip()\<close>\<close>
  "strip s = rev (dropWhile is_space (rev (dropWhile is_space s)))"

definition startswith :: "string \<Rightarrow> string \<Rightarrow> bool" where
  \<comment> \<open>\<open>s.startswith(p)\<close>\<close>
  "startswith s p = prefix p s"

fun split_once :: "char \<Rightarrow> string \<Rightarrow> string \<times> string" where
  \<comment> \<open>\<open>s.split(c, 1)\<close> for a string that contains \<open>c\<close>: the text before the first
      \<open>c\<close> and the text after it.\<close>
  "split_once c [] = ([], [])"
| "split_once c (x # xs) =
     (if x = c then ([], xs) else (let (k, v) = split_once c xs in (x # k, v)))"

section \<open>Domain model (models/domain.py)\<close>

datatype PolicyVerdict = ALLOW | DENY | NEEDS_APPROVAL

datatype AgentState = RUNNING | PAUSED | WAITING_APPROVAL | COMPLETED | FAILED

record Citation =
  cit_doc_id :: string
  cit_page :: int
  cit_image_id :: "string option"
  cit_snippet :: string

record RetrievalResult =
  res_chunk_id :: string
  res_text :: string
  res_score :: real
  res_citations :: "Citation list"
  res_modality :: string

record RetrievalResponse =
  resp_query :: string
  results :: "RetrievalResult list"
  resp_strategy :: string

record PolicyRule =
  rule_id :: string
  rule_name :: string
  rule_description :: string
  condition :: string
  rule_verdict :: PolicyVerdict

record PolicyEvaluation =
  ev_rule :: PolicyRule
  matched :: bool
  ev_verdict :: PolicyVerdict
  explanation :: string

section \<open>Policy engine (reasoning/policy.py)\<close>

text \<open>
  Two library functions are parameters of the model: \<open>re_search pattern query\<close> stands
  for \<open>bool(re.search(pattern, query, re.IGNORECASE))\<close> and is \<open>None\<close> where the
  library raises \<open>re.error\<close> (a pattern that does not compile); \<open>float_of s\<close> stands
  for \<open>float(s)\<close> and is \<open>None\<close> where it raises \<open>ValueError\<close>.

  The exceptions that leave the modelled functions: \<open>re.error\<close> from a rule condition,
  and the \<open>ValidationError\<close> of a \<open>Decision\<close> whose \<open>answer\<close> is not a string.
\<close>

datatype error = RegexError | ValidationError

datatype pyfloat = Finite real | PosInf | NegInf | NaN

fun float_lt :: "real \<Rightarrow> pyfloat \<Rightarrow> bool" where
  \<comment> \<open>\<open>x < t\<close> for a finite \<open>x\<close>\<close>
  "float_lt x (Finite t) = (x < t)"
| "float_lt x PosInf = True"
| "float_lt x NegInf = False"
| "float_lt x NaN = False"

definition context_get :: "(string \<rightharpoonup> string) \<Rightarrow> string \<Rightarrow> string" where
  \<comment> \<open>\<open>context.get(key, "")\<close>\<close>
  "context_get context k = (case context k of None \<Rightarrow> [] | Some v \<Rightarrow> v)"

definition check_condition ::
  "(string \<Rightarrow> string \<Rightarrow> bool option) \<Rightarrow> (string \<Rightarrow> pyfloat option) \<Rightarrow>
   PolicyRule \<Rightarrow> string \<Rightarrow> RetrievalResponse \<Rightarrow> (string \<rightharpoonup> string) \<Rightarrow> error + bool" where
  "check_condition re_search float_of rule query evidence context =
    (let cond = strip (condition rule) in
     if cond = ''no_evidence'' then Inr (length (results evidence) = 0)
     else if startswith cond ''contains:'' then
       (let pattern = strip (drop (length ''contains:'') cond) in
        case re_search pattern query of
          None \<Rightarrow> Inl RegexError
        | Some b \<Rightarrow> Inr b)
     else if startswith cond ''min_score:'' then
       (case float_of (strip (drop (length ''min_score:'') cond)) of
          None \<Rightarrow> Inr False
        | Some threshold \<Rightarrow>
            (let top_score = (case results evidence of [] \<Rightarrow> 0 | r # _ \<Rightarrow> res_score r)
             in Inr (float_lt top_score threshold)))
     else if startswith cond ''context:'' then
       (let kv = strip (drop (length ''context:'') cond) in
        if CHR ''='' \<in> set kv then
          (let (key, val) = split_once CHR ''='' kv
           in Inr (context_get context (strip key) = strip val))
        else Inr False)
     else Inr False)"

definition eval_result :: "PolicyRule \<Rightarrow> bool \<Rightarrow> PolicyEvaluation" where
  "eval_result rule m =
    \<lparr> ev_rule = rule,
      matched = m,
      ev_verdict = (if m then rule_verdict rule else ALLOW),
      explanation = ''Rule '' @ [CHR 0x27] @ rule_name rule @ [CHR 0x27] @ '' ''
                    @ (if m then ''matched'' else ''did not match'') \<rparr>"

fun evaluate_loop ::
  "(string \<Rightarrow> string \<Rightarrow> bool option) \<Rightarrow> (string \<Rightarrow> pyfloat option) \<Rightarrow>
   PolicyRule list \<Rightarrow> string \<Rightarrow> RetrievalResponse \<Rightarrow> (string \<rightharpoonup> string) \<Rightarrow>
   PolicyEvaluation list \<Rightarrow> error + PolicyEvaluation list" where
  \<comment> \<open>the \<open>for rule in self._rules\<close> loop; \<open>evaluations\<close> is the accumulator\<close>
  "evaluate_loop re_search float_of [] query evidence context evaluations = Inr evaluations"
| "evaluate_loop re_search float_of (rule # rules) query evidence context evaluations =
     (case check_condition re_search float_of rule query evidence context of
        Inl e \<Rightarrow> Inl e
      | Inr m \<Rightarrow> evaluate_loop re_search float_of rules query evidence context
                  (evaluations @ [eval_result rule m]))"

definition evaluate ::
  "(string \<Rightarrow> string \<Rightarrow> bool option) \<Rightarrow> (string \<Rightarrow> pyfloat option) \<Rightarrow>
   PolicyRule list \<Rightarrow> string \<Rightarrow> RetrievalResponse \<Rightarrow> (string \<rightharpoonup> string) option \<Rightarrow>
   error + PolicyEvaluation list" where
  \<comment> \<open>\<open>context = context or {}\<close>: an absent or empty context is the empty map\<close>
  "evaluate re_search float_of rules query evidence context =
     evaluate_loop re_search float_of rules query evidence
       (case context of None \<Rightarrow> Map.empty | Some c \<Rightarrow> c) []"

fun first_match :: "PolicyVerdict \<Rightarrow> PolicyEvaluation list \<Rightarrow> bool" where
  \<comment> \<open>\<open>for ev in evaluations: if ev.matched and ev.verdict == v: return\<close>\<close>
  "first_match v [] = False"
| "first_match v (ev # evs) = (if matched ev \<and> ev_verdict ev = v then True else first_match v evs)"

definition check_allowed :: "PolicyEvaluation list \<Rightarrow> PolicyVerdict" where
  "check_allowed evaluations =
     (if first_match DENY evaluations then DENY
      else if first_match NEEDS_APPROVAL evaluations then NEEDS_APPROVAL
      else ALLOW)"

section \<open>Decision agent (reasoning/agent.py)\<close>

fun str_replace :: "string \<Rightarrow> string \<Rightarrow> string \<Rightarrow> string" where
  \<comment> \<open>\<open>s.replace(old, new)\<close>: every non-overlapping occurrence of \<open>old\<close>, scanning from
      the left; an empty \<open>old\<close> matches before every character and at the end\<close>
  "str_replace old new [] = (if old = [] then new else [])"
| "str_replace old new (c # cs) =
     (if old = [] then new @ c # str_replace old new cs
      else if prefix old (c # cs) then new @ str_replace old new (drop (length old) (c # cs))
      else c # str_replace old new cs)"

fun join :: "string \<Rightarrow> string list \<Rightarrow> string" where
  \<comment> \<open>\<open>sep.join(xs)\<close>\<close>
  "join sep [] = []"
| "join sep [x] = x"
| "join sep (x # y # ys) = x @ sep @ join sep (y # ys)"

fun show_nat :: "nat \<Rightarrow> string" where
  \<comment> \<open>decimal digits of a natural number\<close>
  "show_nat n = (if n < 10 then [char_of (48 + n)]
                 else show_nat (n div 10) @ [char_of (48 + n mod 10)])"

declare show_nat.simps [simp del]

definition show_int :: "int \<Rightarrow> string" where
  \<comment> \<open>\<open>str(i)\<close> for an \<open>int\<close>\<close>
  "show_int i = (if i < 0 then CHR ''-'' # show_nat (nat (- i)) else show_nat (nat i))"

definition counter_get :: "(string \<rightharpoonup> nat) \<Rightarrow> string \<Rightarrow> nat" where
  \<comment> \<open>\<open>d.get(key, 0)\<close> on a dictionary of counts\<close>
  "counter_get counts k = (case counts k of None \<Rightarrow> 0 | Some n \<Rightarrow> n)"

record LLMProviderConfig =
  api_key :: string
  model :: string
  base_url :: string
  role :: string

record Settings =
  orchestrator :: LLMProviderConfig
  auditor :: LLMProviderConfig
  enable_human_in_loop :: bool

record Decision =
  decision_id :: string
  dec_query :: string
  answer :: string
  dec_evidence :: "RetrievalResult list"
  policy_evaluations :: "PolicyEvaluation list"
  agent_state :: AgentState
  model_used :: string
  auditor_model :: string
  created_at :: nat

text \<open>
  The agent object: its settings, the rule list of its policy engine, \<open>_state\<close> and
  \<open>_pending_decision\<close>. The audit sink is write-only for the agent (its \<open>log\<close> returns
  nothing the agent uses and swallows write failures) and is left out of the model.

  The HTTP calls are parameters. \<open>generate query evidence\<close> is the outcome of the
  \<open>try\<close> block of \<open>_call_orchestrator\<close>: \<open>CallFailed\<close> where it raises (timeout,
  transport or status error, a reply without the expected fields), otherwise the value
  found at \<open>data["choices"][0]["message"]["content"]\<close>, which the code returns
  unchecked: a string (\<open>Str\<close>) or any other JSON value such as \<open>null\<close> (\<open>NonStr\<close>).
  \<open>review query answer evidence\<close> is the same for \<open>_call_auditor\<close> and the value at
  \<open>data["content"][0]["text"]\<close>; the auditor's result goes to the audit sink only.
  A \<open>Decision\<close> is a validated model whose \<open>answer\<close> field is declared \<open>str\<close>:
  constructing one from a value that is not a string raises \<open>ValidationError\<close>.
  A new \<open>Decision\<close> draws its identifier and creation time from the environment:
  \<open>new_id\<close> and \<open>now\<close> are parameters of \<open>decide\<close>.
\<close>

datatype content = Str string | NonStr

datatype reply = CallFailed | Content content

record DecisionAgent =
  settings :: Settings
  policy :: "PolicyRule list"
  state :: AgentState
  pending_decision :: "Decision option"

definition fallback_answer :: "string \<Rightarrow> RetrievalResponse \<Rightarrow> string" where
  "fallback_answer query evidence =
     (case results evidence of
        [] \<Rightarrow> ''No evidence found. Cannot answer without grounded data.''
      | top_result # _ \<Rightarrow>
          (let citations = join '', ''
                 (map (\<lambda>c. ''[doc='' @ cit_doc_id c @ '', page='' @ show_int (cit_page c) @ '']'')
                      (res_citations top_result))
           in ''Based on available evidence '' @ citations @ '': '' @ take 500 (res_text top_result)))"

definition call_orchestrator ::
  "(string \<Rightarrow> RetrievalResponse \<Rightarrow> reply) \<Rightarrow> Settings \<Rightarrow>
   string \<Rightarrow> RetrievalResponse \<Rightarrow> content" where
  "call_orchestrator generate cfg query evidence =
     (if api_key (orchestrator cfg) = [] then Str (fallback_answer query evidence)
      else case generate query evidence of
             Content c \<Rightarrow> c
           | CallFailed \<Rightarrow> Str (fallback_answer query evidence))"

definition call_auditor ::
  "(string \<Rightarrow> content \<Rightarrow> RetrievalResponse \<Rightarrow> reply) \<Rightarrow> Settings \<Rightarrow>
   string \<Rightarrow> content \<Rightarrow> RetrievalResponse \<Rightarrow> content" where
  "call_auditor review cfg query ans evidence =
     (if api_key (auditor cfg) = [] then Str ''audit_skipped:no_api_key''
      else case review query ans evidence of
             Content c \<Rightarrow> c
           | CallFailed \<Rightarrow> Str ''audit_skipped:api_error'')"

definition pending_marker :: string where
  "pending_marker = ''[AWAITING APPROVAL] ''"

definition decide ::
  "(string \<Rightarrow> string \<Rightarrow> bool option) \<Rightarrow> (string \<Rightarrow> pyfloat option) \<Rightarrow>
   (string \<Rightarrow> RetrievalResponse \<Rightarrow> reply) \<Rightarrow>
   (string \<Rightarrow> content \<Rightarrow> RetrievalResponse \<Rightarrow> reply) \<Rightarrow>
   string \<Rightarrow> nat \<Rightarrow> DecisionAgent \<Rightarrow> string \<Rightarrow> RetrievalResponse \<Rightarrow>
   (string \<rightharpoonup> string) option \<Rightarrow> (error + Decision) \<times> DecisionAgent" where
  \<comment> \<open>an exception leaves the agent as the statements before it have set it\<close>
  "decide re_search float_of generate review new_id now agent query evidence context =
     (let agent = agent\<lparr>state := RUNNING\<rparr> in
      case evaluate re_search float_of (policy agent) query evidence context of
        Inl e \<Rightarrow> (Inl e, agent)
      | Inr evaluations \<Rightarrow>
          (let aggregate_verdict = check_allowed evaluations in
           if aggregate_verdict = DENY then
             (Inr \<lparr> decision_id = new_id, dec_query = query,
                    answer = ''[DENIED] Policy violation: action not permitted.'',
                    dec_evidence = results evidence, policy_evaluations = evaluations,
                    agent_state = FAILED, model_used = [], auditor_model = [],
                    created_at = now \<rparr>,
              agent\<lparr>state := FAILED\<rparr>)
           else
             (let generated = call_orchestrator generate (settings agent) query evidence;
                  audit_result = call_auditor review (settings agent) query generated evidence
              in case generated of
                   NonStr \<Rightarrow> (Inl ValidationError, agent)
                 | Str ans \<Rightarrow>
                     (let decision = \<lparr> decision_id = new_id, dec_query = query, answer = ans,
                                        dec_evidence = results evidence,
                                        policy_evaluations = evaluations,
                                        agent_state = COMPLETED,
                                        model_used = model (orchestrator (settings agent)),
                                        auditor_model = model (auditor (settings agent)),
                                        created_at = now \<rparr>
                      in if aggregate_verdict = NEEDS_APPROVAL
                            \<and> enable_human_in_loop (settings agent)
                         then (Inr (decision\<lparr>agent_state := WAITING_APPROVAL,
                                              answer := pending_marker @ ans\<rparr>),
                               agent\<lparr>state := WAITING_APPROVAL,
                                      pending_decision := Some decision\<rparr>)
                         else (Inr decision, agent\<lparr>state := COMPLETED\<rparr>)))))"

definition approve :: "DecisionAgent \<Rightarrow> string \<Rightarrow> Decision option \<times> DecisionAgent" where
  "approve agent did =
     (case pending_decision agent of
        None \<Rightarrow> (None, agent)
      | Some p \<Rightarrow>
          if decision_id p \<noteq> did then (None, agent)
          else (Some (p\<lparr>agent_state := COMPLETED,
                         answer := str_replace pending_marker [] (answer p)\<rparr>),
                agent\<lparr>state := COMPLETED, pending_decision := None\<rparr>))"

definition reject :: "DecisionAgent \<Rightarrow> string \<Rightarrow> string \<Rightarrow> Decision option \<times> DecisionAgent" where
  "reject agent did reason =
     (case pending_decision agent of
        None \<Rightarrow> (None, agent)
      | Some p \<Rightarrow>
          if decision_id p \<noteq> did then (None, agent)
          else (Some (p\<lparr>agent_state := FAILED,
                         answer := (if reason \<noteq> [] then ''[REJECTED] '' @ reason
                                    else ''[REJECTED]'')\<rparr>),
                agent\<lparr>state := FAILED, pending_decision := None\<rparr>))"

section \<open>Knowledge store (knowledge/retriever.py)\<close>

fun split_on :: "string \<Rightarrow> string \<Rightarrow> string list" where
  \<comment> \<open>\<open>s.split(sep)\<close> for a non-empty separator: cut at every non-overlapping
      occurrence of \<open>sep\<close>, scanning from the left\<close>
  "split_on sep [] = [[]]"
| "split_on sep (c # cs) =
     (if sep \<noteq> [] \<and> prefix sep (c # cs)
      then [] # split_on sep (drop (length sep) (c # cs))
      else (case split_on sep cs of
              [] \<Rightarrow> [[c]]
            | piece # pieces \<Rightarrow> (c # piece) # pieces))"

record BoundingBox =
  bb_x :: real
  bb_y :: real
  bb_width :: real
  bb_height :: real
  bb_page :: int

record ExtractedText =
  et_text :: string
  confidence :: real
  et_bbox :: "BoundingBox option"
  source_page :: int

record ExtractedImage =
  image_id :: string
  img_page :: int
  img_bbox :: "BoundingBox option"
  image_bytes_b64 :: string
  description :: string

record DocumentIngestion =
  doc_id :: string
  filename :: string
  mime_type :: string
  pages :: int
  texts :: "ExtractedText list"
  images :: "ExtractedImage list"
  ingested_at :: nat

record Chunk =
  chunk_id :: string
  chunk_doc_id :: string
  chunk_text :: string
  chunk_page :: int
  bbox_data :: "BoundingBox option"
  chunk_image_id :: "string option"
  modality :: string

text \<open>The store object: \<open>_chunks\<close> and \<open>_doc_ids\<close>; the audit sink is left out.\<close>

record KnowledgeStore =
  chunks :: "Chunk list"
  doc_ids :: "string set"

subsection \<open>Splitting and indexing\<close>

definition candidate_of :: "string \<Rightarrow> string \<Rightarrow> string" where
  \<comment> \<open>\<open>(current + ". " + sentence).strip() if current else sentence\<close>\<close>
  "candidate_of current sentence =
     (if current \<noteq> [] then strip (current @ ''. '' @ sentence) else sentence)"

fun split_loop :: "nat \<Rightarrow> string list \<Rightarrow> string list \<Rightarrow> string \<Rightarrow> string list \<times> string" where
  \<comment> \<open>the \<open>for sentence in ...\<close> loop of \<open>_split_text\<close>, with its variables \<open>chunks\<close>
      and \<open>current\<close>\<close>
  "split_loop max_chars [] cks current = (cks, current)"
| "split_loop max_chars (sentence # sentences) cks current =
     (if length (candidate_of current sentence) > max_chars \<and> current \<noteq> []
      then split_loop max_chars sentences (cks @ [strip current]) sentence
      else split_loop max_chars sentences cks (candidate_of current sentence))"

definition sentences_of :: "string \<Rightarrow> string list" where
  \<comment> \<open>\<open>text.replace("\n", " ").split(". ")\<close>\<close>
  "sentences_of txt = split_on ''. '' (str_replace [CHR 0x0A] '' '' txt)"

definition split_text :: "string \<Rightarrow> nat \<Rightarrow> string list" where
  "split_text txt max_chars =
     (if length txt \<le> max_chars then [txt]
      else (let (cks, current) = split_loop max_chars (sentences_of txt) [] [];
                cks = (if strip current \<noteq> [] then cks @ [strip current] else cks)
            in if cks \<noteq> [] then cks else [txt]))"

fun index_sub_chunks ::
  "string \<Rightarrow> nat \<Rightarrow> ExtractedText \<Rightarrow> string list \<Rightarrow> Chunk list \<times> nat \<Rightarrow> Chunk list \<times> nat" where
  \<comment> \<open>the inner loop over the segments of one text block; the state is the chunk list
      and the counter \<open>added\<close>\<close>
  "index_sub_chunks did i text_block [] (cs, added) = (cs, added)"
| "index_sub_chunks did i text_block (sub_chunk # rest) (cs, added) =
     index_sub_chunks did i text_block rest
       (cs @ [\<lparr> chunk_id = did @ ''_t'' @ show_nat i @ ''_'' @ show_nat added,
                 chunk_doc_id = did,
                 chunk_text = sub_chunk,
                 chunk_page = source_page text_block,
                 bbox_data = et_bbox text_block,
                 chunk_image_id = None,
                 modality = ''text'' \<rparr>],
        added + 1)"

fun index_texts ::
  "string \<Rightarrow> nat \<Rightarrow> ExtractedText list \<Rightarrow> Chunk list \<times> nat \<Rightarrow> Chunk list \<times> nat" where
  \<comment> \<open>\<open>for i, text_block in enumerate(doc.texts)\<close>\<close>
  "index_texts did i [] st = st"
| "index_texts did i (text_block # rest) st =
     index_texts did (i + 1) rest
       (index_sub_chunks did i text_block (split_text (et_text text_block) 500) st)"

fun index_images :: "string \<Rightarrow> ExtractedImage list \<Rightarrow> Chunk list \<times> nat \<Rightarrow> Chunk list \<times> nat" where
  \<comment> \<open>\<open>for img in doc.images\<close>\<close>
  "index_images did [] st = st"
| "index_images did (img # rest) (cs, added) =
     index_images did rest
       (if description img \<noteq> [] then
          (cs @ [\<lparr> chunk_id = did @ ''_img_'' @ image_id img,
                    chunk_doc_id = did,
                    chunk_text = description img,
                    chunk_page = img_page img,
                    bbox_data = None,
                    chunk_image_id = Some (image_id img),
                    modality = ''image'' \<rparr>],
           added + 1)
        else (cs, added))"

definition index_document :: "KnowledgeStore \<Rightarrow> DocumentIngestion \<Rightarrow> KnowledgeStore \<times> nat" where
  \<comment> \<open>the new store and the returned count\<close>
  "index_document store doc =
     (let (cs, added) = index_texts (doc_id doc) 0 (texts doc) (chunks store, 0);
          (cs, added) = index_images (doc_id doc) (images doc) (cs, added)
      in (\<lparr> chunks = cs, doc_ids = insert (doc_id doc) (doc_ids store) \<rparr>, added))"

subsection \<open>Scoring\<close>

definition lower_char :: "char \<Rightarrow> char" where
  \<comment> \<open>\<open>str.lower\<close> on one code point below 256\<close>
  "lower_char c =
     (let n = (of_char c :: nat)
      in if (65 \<le> n \<and> n \<le> 90) \<or> (192 \<le> n \<and> n \<le> 214) \<or> (216 \<le> n \<and> n \<le> 222)
         then char_of (n + 32) else c)"

definition lower :: "string \<Rightarrow> string" where
  \<comment> \<open>\<open>s.lower()\<close>\<close>
  "lower s = map lower_char s"

fun split_ws_from :: "string \<Rightarrow> string \<Rightarrow> string list" where
  \<comment> \<open>\<open>current\<close> is the word read so far\<close>
  "split_ws_from current [] = (if current = [] then [] else [current])"
| "split_ws_from current (c # cs) =
     (if is_space c then (if current = [] then split_ws_from [] cs
                          else current # split_ws_from [] cs)
      else split_ws_from (current @ [c]) cs)"

definition split_ws :: "string \<Rightarrow> string list" where
  \<comment> \<open>\<open>s.split()\<close>: the words between runs of whitespace\<close>
  "split_ws s = split_ws_from [] s"

fun doc_freq_terms :: "string set \<Rightarrow> string list \<Rightarrow> (string \<rightharpoonup> nat) \<Rightarrow> (string \<rightharpoonup> nat)" where
  \<comment> \<open>\<open>for t in query_terms: if t in terms: doc_freq[t] = doc_freq.get(t, 0) + 1\<close>\<close>
  "doc_freq_terms terms [] df = df"
| "doc_freq_terms terms (t # ts) df =
     doc_freq_terms terms ts (if t \<in> terms then df(t \<mapsto> counter_get df t + 1) else df)"

fun doc_freq_chunks :: "Chunk list \<Rightarrow> string list \<Rightarrow> (string \<rightharpoonup> nat) \<Rightarrow> (string \<rightharpoonup> nat)" where
  \<comment> \<open>\<open>for chunk in self._chunks\<close>\<close>
  "doc_freq_chunks [] query_terms df = df"
| "doc_freq_chunks (c # cs) query_terms df =
     doc_freq_chunks cs query_terms
       (doc_freq_terms (set (split_ws (lower (chunk_text c)))) query_terms df)"

definition bm25_term :: "real \<Rightarrow> real \<Rightarrow> nat \<Rightarrow> real \<Rightarrow> nat \<Rightarrow> nat \<Rightarrow> nat \<Rightarrow> real" where
  \<comment> \<open>the contribution \<open>idf * numerator / denominator\<close> of one query term with term
      frequency \<open>tf\<close> and document frequency \<open>dft\<close> to a chunk of \<open>dl\<close> terms\<close>
  "bm25_term k1 b n avg_dl tf dft dl =
     (let idf = ln ((real n - real dft + 0.5) / (real dft + 0.5) + 1.0);
          numerator = real tf * (k1 + 1);
          denominator = real tf + k1 * (1 - b + b * real dl / avg_dl)
      in idf * numerator / denominator)"

fun bm25_terms ::
  "real \<Rightarrow> real \<Rightarrow> nat \<Rightarrow> real \<Rightarrow> (string \<rightharpoonup> nat) \<Rightarrow> string list \<Rightarrow> nat \<Rightarrow> string list \<Rightarrow> real \<Rightarrow> real" where
  \<comment> \<open>the loop \<open>for t in query_terms\<close> that adds up the score of one chunk;
      \<open>term_counts.get(t, 0)\<close> is the number of occurrences of \<open>t\<close> among the chunk's terms\<close>
  "bm25_terms k1 b n avg_dl df chunk_terms dl [] score = score"
| "bm25_terms k1 b n avg_dl df chunk_terms dl (t # ts) score =
     (if count_list chunk_terms t = 0 \<or> counter_get df t = 0
      then bm25_terms k1 b n avg_dl df chunk_terms dl ts score
      else bm25_terms k1 b n avg_dl df chunk_terms dl ts
             (score + bm25_term k1 b n avg_dl (count_list chunk_terms t) (counter_get df t) dl))"

definition bm25_chunk ::
  "real \<Rightarrow> real \<Rightarrow> nat \<Rightarrow> real \<Rightarrow> (string \<rightharpoonup> nat) \<Rightarrow> string list \<Rightarrow> Chunk \<Rightarrow> real" where
  \<comment> \<open>the body of the second \<open>for chunk in self._chunks\<close> loop\<close>
  "bm25_chunk k1 b n avg_dl df query_terms c =
     (let chunk_terms = split_ws (lower (chunk_text c))
      in bm25_terms k1 b n avg_dl df chunk_terms (length chunk_terms) query_terms 0)"

definition bm25_score :: "KnowledgeStore \<Rightarrow> string \<Rightarrow> (Chunk \<times> real) list" where
  \<comment> \<open>with the default parameters \<open>k1 = 1.5\<close>, \<open>b = 0.75\<close>\<close>
  "bm25_score store query =
     (let query_terms = split_ws (lower query)
      in if query_terms = [] then map (\<lambda>c. (c, 0)) (chunks store)
         else (let n = length (chunks store);
                   df = doc_freq_chunks (chunks store) query_terms Map.empty;
                   avg_dl = real (sum_list (map (\<lambda>c. length (split_ws (chunk_text c)))
                                             (chunks store)))
                            / real (max n 1)
               in map (\<lambda>c. (c, bm25_chunk 1.5 0.75 n avg_dl df query_terms c))
                      (chunks store)))"

definition vector_chunk :: "string set \<Rightarrow> Chunk \<Rightarrow> real" where
  "vector_chunk query_terms c =
     (let chunk_terms = set (split_ws (lower (chunk_text c)))
      in if query_terms = {} \<or> chunk_terms = {} then 0
         else (if query_terms \<union> chunk_terms \<noteq> {}
               then real (card (query_terms \<inter> chunk_terms))
                    / real (card (query_terms \<union> chunk_terms))
               else 0))"

definition vector_score :: "KnowledgeStore \<Rightarrow> string \<Rightarrow> (Chunk \<times> real) list" where
  "vector_score store query =
     map (\<lambda>c. (c, vector_chunk (set (split_ws (lower query))) c)) (chunks store)"

definition sort_desc :: "('a \<times> real) list \<Rightarrow> ('a \<times> real) list" where
  \<comment> \<open>\<open>sorted(xs, key=lambda x: x[1], reverse=True)\<close>: stable, equal scores keep their
      order\<close>
  "sort_desc xs = sort_key (\<lambda>x. - snd x) xs"

text \<open>
  \<open>_rrf_fuse\<close> fills two dictionaries with the same keys, \<open>scores\<close> and \<open>chunk_map\<close>;
  the model keeps both values of a key in one association list in insertion order.
\<close>

fun rrf_update ::
  "string \<Rightarrow> Chunk \<Rightarrow> real \<Rightarrow> (string \<times> Chunk \<times> real) list \<Rightarrow> (string \<times> Chunk \<times> real) list" where
  \<comment> \<open>\<open>scores[cid] = scores.get(cid, 0.0) + v; chunk_map[cid] = chunk\<close>\<close>
  "rrf_update cid c v [] = [(cid, c, 0 + v)]"
| "rrf_update cid c v ((k, c', s) # rest) =
     (if k = cid then (k, c, s + v) # rest else (k, c', s) # rrf_update cid c v rest)"

fun rrf_ranked ::
  "nat \<Rightarrow> (Chunk \<times> real) list \<Rightarrow> nat \<Rightarrow> (string \<times> Chunk \<times> real) list \<Rightarrow>
   (string \<times> Chunk \<times> real) list" where
  \<comment> \<open>\<open>for rank, (chunk, _) in enumerate(ranked_sorted, start=1)\<close>\<close>
  "rrf_ranked k [] rank acc = acc"
| "rrf_ranked k ((c, s) # rest) rank acc =
     rrf_ranked k rest (rank + 1) (rrf_update (chunk_id c) c (1.0 / real (k + rank)) acc)"

fun rrf_lists ::
  "nat \<Rightarrow> (Chunk \<times> real) list list \<Rightarrow> (string \<times> Chunk \<times> real) list \<Rightarrow>
   (string \<times> Chunk \<times> real) list" where
  \<comment> \<open>\<open>for ranked in ranked_lists\<close>\<close>
  "rrf_lists k [] acc = acc"
| "rrf_lists k (ranked # rest) acc = rrf_lists k rest (rrf_ranked k (sort_desc ranked) 1 acc)"

definition rrf_fuse :: "(Chunk \<times> real) list list \<Rightarrow> (Chunk \<times> real) list" where
  \<comment> \<open>with the default \<open>k = 60\<close>\<close>
  "rrf_fuse ranked_lists = map (\<lambda>(cid, c, score). (c, score)) (rrf_lists 60 ranked_lists [])"

subsection \<open>Retrieval\<close>

definition py_take :: "int \<Rightarrow> 'a list \<Rightarrow> 'a list" where
  \<comment> \<open>the slice \<open>xs[:k]\<close>: a negative \<open>k\<close> counts from the end\<close>
  "py_take k xs = (if 0 \<le> k then take (nat k) xs else take (length xs - nat (- k)) xs)"

definition round4 :: "real \<Rightarrow> real" where
  \<comment> \<open>\<open>round(x, 4)\<close>: to the nearest multiple of \<open>0.0001\<close>, a tie to the even one\<close>
  "round4 x =
     (let y = x * 10000; f = \<lfloor>y\<rfloor>; d = y - of_int f
      in of_int (if d < 1 / 2 then f else if 1 / 2 < d then f + 1
                 else if even f then f else f + 1) / 10000)"

definition score_chunks :: "KnowledgeStore \<Rightarrow> string \<Rightarrow> string \<Rightarrow> (Chunk \<times> real) list" where
  \<comment> \<open>the strategy dispatch of \<open>retrieve\<close>\<close>
  "score_chunks store query strategy =
     (if strategy = ''bm25'' then bm25_score store query
      else if strategy = ''vector'' then vector_score store query
      else rrf_fuse [bm25_score store query, vector_score store query])"

definition mk_result :: "Chunk \<times> real \<Rightarrow> RetrievalResult" where
  "mk_result cs =
     (case cs of (c, score) \<Rightarrow>
        \<lparr> res_chunk_id = chunk_id c,
          res_text = chunk_text c,
          res_score = round4 score,
          res_citations = [\<lparr> cit_doc_id = chunk_doc_id c, cit_page = chunk_page c,
                             cit_image_id = chunk_image_id c,
                             cit_snippet = take 200 (chunk_text c) \<rparr>],
          res_modality = modality c \<rparr>)"

definition retrieve :: "KnowledgeStore \<Rightarrow> string \<Rightarrow> int \<Rightarrow> string \<Rightarrow> RetrievalResponse" where
  "retrieve store query top_k strategy =
     (if chunks store = [] then \<lparr> resp_query = query, results = [], resp_strategy = strategy \<rparr>
      else (let scored = sort_desc (score_chunks store query strategy);
                top_scored = py_take top_k scored
            in \<lparr> resp_query = query,
                 results = map mk_result (filter (\<lambda>(c, score). \<not> score \<le> 0) top_scored),
                 resp_strategy = strategy \<rparr>))"

definition retrieve_filter_first ::
  "KnowledgeStore \<Rightarrow> string \<Rightarrow> nat \<Rightarrow> string \<Rightarrow> RetrievalResult list" where
  \<comment> \<open>the wording of the specification: remove the chunks whose score is not strictly
      positive, then truncate to \<open>top_k\<close>\<close>
  "retrieve_filter_first store query top_k strategy =
     map mk_result
       (take top_k (filter (\<lambda>(c, score). 0 < score)
                           (sort_desc (score_chunks store query strategy))))"

section \<open>Learning loop (learning/feedback.py)\<close>

datatype OutcomeRating = CORRECT | PARTIALLY_CORRECT | INCORRECT | HALLUCINATION

fun rating_value :: "OutcomeRating \<Rightarrow> string" where
  \<comment> \<open>\<open>rating.value\<close>\<close>
  "rating_value CORRECT = ''correct''"
| "rating_value PARTIALLY_CORRECT = ''partially_correct''"
| "rating_value INCORRECT = ''incorrect''"
| "rating_value HALLUCINATION = ''hallucination''"

record FeedbackRecord =
  feedback_id :: string
  fb_decision_id :: string
  rating :: OutcomeRating
  corrected_answer :: string
  fb_explanation :: string
  fb_created_at :: nat

datatype param = PFloat real | PStr string

record LearningAdjustment =
  adjustment_id :: string
  trigger_feedback_id :: string
  adjustment_type :: string
  adj_description :: string
  parameters :: "(string \<times> param) list"
  applied_at :: nat

text \<open>
  The loop object: \<open>_feedback\<close>, \<open>_adjustments\<close> and the \<open>Counter\<close> \<open>_mistake_counts\<close>
  (a missing key counts as 0). A new \<open>LearningAdjustment\<close> draws its identifier and time
  from the environment: a call of \<open>record_feedback\<close> creates at most two adjustments and
  takes their identifiers \<open>aid1\<close>, \<open>aid2\<close> and the time \<open>now\<close> as parameters.
\<close>

record LearningLoop =
  feedback :: "FeedbackRecord list"
  adjustments :: "LearningAdjustment list"
  mistake_counts :: "string \<rightharpoonup> nat"

definition check_for_adjustments ::
  "LearningLoop \<Rightarrow> FeedbackRecord \<Rightarrow> string \<Rightarrow> string \<Rightarrow> nat \<Rightarrow> LearningLoop" where
  "check_for_adjustments loop fb aid1 aid2 now =
     (let hallucinations = counter_get (mistake_counts loop) ''hallucination'';
          incorrect = counter_get (mistake_counts loop) ''incorrect'';
          loop = (if hallucinations > 0 \<and> hallucinations mod 3 = 0 then
                    loop\<lparr>adjustments := adjustments loop @
                      [\<lparr> adjustment_id = aid1,
                         trigger_feedback_id = feedback_id fb,
                         adjustment_type = ''retrieval_weight'',
                         adj_description = ''Increasing retrieval confidence threshold after ''
                            @ show_nat hallucinations @ '' hallucinations detected'',
                         parameters = [(''min_score_threshold'',
                                        PFloat (0.1 * real (hallucinations div 3)))],
                         applied_at = now \<rparr>]\<rparr>
                  else loop)
      in (if incorrect > 0 \<and> incorrect mod 5 = 0 then
            loop\<lparr>adjustments := adjustments loop @
              [\<lparr> adjustment_id = aid2,
                 trigger_feedback_id = feedback_id fb,
                 adjustment_type = ''prompt_patch'',
                 adj_description = ''Suggesting stricter evidence grounding after ''
                    @ show_nat incorrect @ '' incorrect answers'',
                 parameters = [(''patch'', PStr ''require_exact_citation'')],
                 applied_at = now \<rparr>]\<rparr>
          else loop))"

definition record_feedback ::
  "LearningLoop \<Rightarrow> FeedbackRecord \<Rightarrow> string \<Rightarrow> string \<Rightarrow> nat \<Rightarrow> LearningLoop" where
  \<comment> \<open>the new state of the loop; the call returns its argument \<open>fb\<close>\<close>
  "record_feedback loop fb aid1 aid2 now =
     (let loop = loop\<lparr>feedback := feedback loop @ [fb]\<rparr>;
          loop = (if rating fb = INCORRECT \<or> rating fb = HALLUCINATION then
                    loop\<lparr>mistake_counts := (mistake_counts loop)
                           (rating_value (rating fb) \<mapsto>
                              counter_get (mistake_counts loop) (rating_value (rating fb)) + 1)\<rparr>
                  else loop)
      in check_for_adjustments loop fb aid1 aid2 now)"

fun record_all :: "LearningLoop \<Rightarrow> FeedbackRecord list \<Rightarrow> LearningLoop" where
  \<comment> \<open>a sequence of \<open>record_feedback\<close> calls; the adjustments of the \<open>n\<close>-th call get
      the identifiers \<open>a<n>\<close>, \<open>b<n>\<close> and the time \<open>n\<close>\<close>
  "record_all loop [] = loop"
| "record_all loop (fb # fbs) =
     record_all (record_feedback loop fb
                   (CHR ''a'' # show_nat (length (feedback loop)))
                   (CHR ''b'' # show_nat (length (feedback loop)))
                   (length (feedback loop))) fbs"

section \<open>Auxiliary notions for the statements\<close>

definition fused_score :: "(string \<times> Chunk \<times> real) list \<Rightarrow> string \<Rightarrow> real" where
  \<comment> \<open>\<open>scores.get(cid, 0.0)\<close> on the dictionaries of \<open>_rrf_fuse\<close>\<close>
  "fused_score acc cid = (case map_of acc cid of None \<Rightarrow> 0.0 | Some (c, s) \<Rightarrow> s)"

section \<open>Concrete inputs used by witnesses and counterexamples\<close>

definition ev_na :: PolicyEvaluation where
  "ev_na = eval_result \<lparr> rule_id = ''r1'', rule_name = ''approve'', rule_description = [],
                         condition = ''no_evidence'', rule_verdict = NEEDS_APPROVAL \<rparr> True"

definition ev_deny :: PolicyEvaluation where
  "ev_deny = eval_result \<lparr> rule_id = ''r2'', rule_name = ''deny'', rule_description = [],
                           condition = ''no_evidence'', rule_verdict = DENY \<rparr> True"

definition re_rejecting :: "string \<Rightarrow> string \<Rightarrow> bool option" where
  \<comment> \<open>a stand-in for the regular-expression library on the one pattern used below: like
      \<open>re.search\<close> it raises on the pattern \<open>(\<close>, which does not compile\<close>
  "re_rejecting pattern query = (if pattern = ''('' then None else Some False)"

definition no_float :: "string \<Rightarrow> pyfloat option" where
  "no_float s = None"

definition bad_regex_rule :: PolicyRule where
  "bad_regex_rule = \<lparr> rule_id = ''r3'', rule_name = ''bad'', rule_description = [],
                       condition = ''contains:('', rule_verdict = DENY \<rparr>"

definition empty_evidence :: RetrievalResponse where
  "empty_evidence = \<lparr> resp_query = ''q'', results = [], resp_strategy = ''hybrid'' \<rparr>"

definition na_rule :: PolicyRule where
  "na_rule = \<lparr> rule_id = ''r1'', rule_name = ''approve'', rule_description = [],
                 condition = ''no_evidence'', rule_verdict = NEEDS_APPROVAL \<rparr>"

definition deny_rule :: PolicyRule where
  "deny_rule = \<lparr> rule_id = ''r2'', rule_name = ''deny'', rule_description = [],
                   condition = ''no_evidence'', rule_verdict = DENY \<rparr>"

definition test_settings :: Settings where
  \<comment> \<open>the settings of the test suite: no API keys, human-in-loop enabled\<close>
  "test_settings =
     \<lparr> orchestrator = \<lparr> api_key = [], model = ''gpt-4o'',
                         base_url = ''https://api.openai.com/v1'', role = ''orchestrator'' \<rparr>,
       auditor = \<lparr> api_key = [], model = ''claude'',
                    base_url = ''https://api.anthropic.com'', role = ''auditor'' \<rparr>,
       enable_human_in_loop = True \<rparr>"

definition na_agent :: DecisionAgent where
  "na_agent = \<lparr> settings = test_settings, policy = [na_rule], state = RUNNING,
                  pending_decision = None \<rparr>"

definition deny_agent :: DecisionAgent where
  "deny_agent = \<lparr> settings = test_settings, policy = [deny_rule], state = RUNNING,
                    pending_decision = None \<rparr>"

definition gen_stub :: "string \<Rightarrow> RetrievalResponse \<Rightarrow> reply" where
  "gen_stub query evidence = Content (Str ''generated'')"

definition review_stub :: "string \<Rightarrow> content \<Rightarrow> RetrievalResponse \<Rightarrow> reply" where
  "review_stub query ans evidence = CallFailed"

definition null_stub :: "string \<Rightarrow> RetrievalResponse \<Rightarrow> reply" where
  \<comment> \<open>a provider whose reply carries \<open>"content": null\<close>\<close>
  "null_stub query evidence = Content NonStr"

definition keyed_settings :: Settings where
  \<comment> \<open>settings with an orchestrator key, so that the provider is called\<close>
  "keyed_settings =
     \<lparr> orchestrator = \<lparr> api_key = ''key'', model = ''gpt-4o'',
                         base_url = ''https://api.openai.com/v1'', role = ''orchestrator'' \<rparr>,
       auditor = \<lparr> api_key = [], model = ''claude'',
                    base_url = ''https://api.anthropic.com'', role = ''auditor'' \<rparr>,
       enable_human_in_loop = True \<rparr>"

definition agent_after_first :: DecisionAgent where
  \<comment> \<open>the agent after a first decision that needs approval\<close>
  "agent_after_first =
     snd (decide re_rejecting no_float gen_stub review_stub ''d1'' 0 na_agent
            ''first question'' empty_evidence None)"

definition agent_after_second :: DecisionAgent where
  \<comment> \<open>the agent after a second decision that needs approval\<close>
  "agent_after_second =
     snd (decide re_rejecting no_float gen_stub review_stub ''d2'' 1 agent_after_first
            ''second question'' empty_evidence None)"

definition first_pending :: Decision where
  \<comment> \<open>the decision stored as pending by the first call\<close>
  "first_pending =
     \<lparr> decision_id = ''d1'', dec_query = ''first question'',
       answer = ''No evidence found. Cannot answer without grounded data.'',
       dec_evidence = [], policy_evaluations = [eval_result na_rule True],
       agent_state = COMPLETED, model_used = ''gpt-4o'', auditor_model = ''claude'',
       created_at = 0 \<rparr>"

definition second_pending :: Decision where
  \<comment> \<open>the decision stored as pending by the second call\<close>
  "second_pending =
     \<lparr> decision_id = ''d2'', dec_query = ''second question'',
       answer = ''No evidence found. Cannot answer without grounded data.'',
       dec_evidence = [], policy_evaluations = [eval_result na_rule True],
       agent_state = COMPLETED, model_used = ''gpt-4o'', auditor_model = ''claude'',
       created_at = 1 \<rparr>"

definition keyed_agent :: DecisionAgent where
  \<comment> \<open>an agent that calls its provider, with the first decision pending\<close>
  "keyed_agent = \<lparr> settings = keyed_settings, policy = [na_rule], state = WAITING_APPROVAL,
                     pending_decision = Some first_pending \<rparr>"

definition new_loop :: LearningLoop where
  \<comment> \<open>\<open>LearningLoop(audit, data_dir)\<close>\<close>
  "new_loop = \<lparr> feedback = [], adjustments = [], mistake_counts = Map.empty \<rparr>"

definition fb_of :: "OutcomeRating \<Rightarrow> FeedbackRecord" where
  "fb_of r = \<lparr> feedback_id = ''f'', fb_decision_id = ''d'', rating = r,
               corrected_answer = [], fb_explanation = [], fb_created_at = 0 \<rparr>"

definition five_incorrect_three_hallucinations :: LearningLoop where
  "five_incorrect_three_hallucinations =
     record_all new_loop (replicate 5 (fb_of INCORRECT) @ replicate 3 (fb_of HALLUCINATION))"

definition empty_store :: KnowledgeStore where
  \<comment> \<open>\<open>KnowledgeStore(audit)\<close>\<close>
  "empty_store = \<lparr> chunks = [], doc_ids = {} \<rparr>"










definition tie_doc :: DocumentIngestion where
  \<comment> \<open>a document with two text blocks\<close>
  "tie_doc =
     \<lparr> doc_id = ''d'', filename = ''f.txt'', mime_type = ''text/plain'', pages = 1,
       texts = [\<lparr> et_text = ''x y'', confidence = 1, et_bbox = None, source_page = 0 \<rparr>,
                \<lparr> et_text = ''x x y z'', confidence = 1, et_bbox = None, source_page = 0 \<rparr>],
       images = [], ingested_at = 0 \<rparr>"

definition tie_store :: KnowledgeStore where
  "tie_store = fst (index_document empty_store tie_doc)"

definition tie_a :: Chunk where
  \<comment> \<open>the chunk of the first block\<close>
  "tie_a = \<lparr> chunk_id = ''d_t0_0'', chunk_doc_id = ''d'', chunk_text = ''x y'',
              chunk_page = 0, bbox_data = None, chunk_image_id = None, modality = ''text'' \<rparr>"

definition tie_b :: Chunk where
  \<comment> \<open>the chunk of the second block\<close>
  "tie_b = \<lparr> chunk_id = ''d_t1_1'', chunk_doc_id = ''d'', chunk_text = ''x x y z'',
              chunk_page = 0, bbox_data = None, chunk_image_id = None, modality = ''text'' \<rparr>"

section \<open>Properties of the policy engine\<close>

lemma first_match_iff:
  "first_match v evs \<longleftrightarrow> (\<exists>ev \<in> set evs. matched ev \<and> ev_verdict ev = v)"
  by (induction evs) auto

lemma check_allowed_set:
  assumes "set evs' = set evs"
  shows "check_allowed evs' = check_allowed evs"
  unfolding check_allowed_def first_match_iff assms ..

text \<open>
  C9. \<open>check_allowed\<close> returns DENY if some matched evaluation has verdict DENY, however
  many matched NEEDS_APPROVAL evaluations there are; otherwise NEEDS_APPROVAL if some
  matched evaluation has that verdict; otherwise ALLOW. The result depends only on which
  evaluations occur in the list, not on their order.
\<close>

theorem check_allowed_priority:
  "check_allowed evs =
     (if \<exists>ev \<in> set evs. matched ev \<and> ev_verdict ev = DENY then DENY
      else if \<exists>ev \<in> set evs. matched ev \<and> ev_verdict ev = NEEDS_APPROVAL then NEEDS_APPROVAL
      else ALLOW)
   \<and> (\<forall>evs'. set evs' = set evs \<longrightarrow> check_allowed evs' = check_allowed evs)"
proof (intro conjI allI impI)
  show "check_allowed evs =
     (if \<exists>ev \<in> set evs. matched ev \<and> ev_verdict ev = DENY then DENY
      else if \<exists>ev \<in> set evs. matched ev \<and> ev_verdict ev = NEEDS_APPROVAL then NEEDS_APPROVAL
      else ALLOW)"
    unfolding check_allowed_def first_match_iff ..
next
  fix evs' assume "set evs' = set evs"
  then show "check_allowed evs' = check_allowed evs" by (rule check_allowed_set)
qed

theorem check_allowed_priority_witness:
  "check_allowed [ev_na, ev_na, ev_deny] = DENY
   \<and> check_allowed [ev_deny, ev_na, ev_na] = check_allowed [ev_na, ev_na, ev_deny]"
proof -
  note t = check_allowed_priority [of "[ev_na, ev_na, ev_deny]"]
  have "check_allowed [ev_na, ev_na, ev_deny] = DENY"
    using conjunct1 [OF t] by (simp add: ev_deny_def eval_result_def)
  moreover have "check_allowed [ev_deny, ev_na, ev_na] = check_allowed [ev_na, ev_na, ev_deny]"
    using conjunct2 [OF t, rule_format, of "[ev_deny, ev_na, ev_na]"] by auto
  ultimately show ?thesis by simp
qed

lemma strip_no_space:
  assumes "s = [] \<or> (\<not> is_space (hd s) \<and> \<not> is_space (last s))"
  shows "strip s = s"
proof (cases s)
  case Nil
  then show ?thesis by (simp add: strip_def)
next
  case (Cons c cs)
  with assms have h: "\<not> is_space c" and l: "\<not> is_space (last s)" by auto
  from h Cons have a: "dropWhile is_space s = s" by simp
  from Cons obtain a r where r: "rev s = a # r" by (cases "rev s") auto
  from Cons have "hd (rev s) = last s" by (simp add: hd_rev)
  with r have "a = last s" by simp
  with l have "dropWhile is_space (a # r) = a # r" by simp
  then have "dropWhile is_space (rev s) = rev s" unfolding r .
  with a show ?thesis by (simp add: strip_def)
qed

text \<open>
  C2. Evaluating a rule condition does not always end without raising: a rule whose
  condition is \<open>contains:(\<close> hands the pattern \<open>(\<close> to the regular-expression library
  outside any \<open>try\<close>, and the library's error leaves \<open>_check_condition\<close>. (The
  \<open>min_score:\<close> branch beside it does catch the \<open>ValueError\<close> of a malformed number.)
\<close>

theorem check_condition_bad_regex_raises:
  "check_condition re_rejecting no_float bad_regex_rule ''any query'' empty_evidence Map.empty
     = Inl RegexError"
proof -
  have s: "strip ''contains:('' = ''contains:(''"
    by (rule strip_no_space) (simp add: is_space_def)
  have p: "strip ''('' = ''(''"
    by (rule strip_no_space) (simp add: is_space_def)
  show ?thesis
    by (simp add: check_condition_def bad_regex_rule_def s p startswith_def re_rejecting_def)
qed

lemma evaluate_loop_shape:
  assumes "evaluate_loop re fl rules q ev ctx acc = Inr evs"
  shows "\<exists>new. evs = acc @ new \<and> map ev_rule new = rules
           \<and> (\<forall>e \<in> set new. \<not> matched e \<longrightarrow> ev_verdict e = ALLOW)
           \<and> (\<forall>e \<in> set new. matched e \<longrightarrow> ev_verdict e = rule_verdict (ev_rule e))"
  using assms
proof (induction rules arbitrary: acc)
  case Nil
  then show ?case by simp
next
  case (Cons r rs)
  from Cons.prems obtain m where
    m: "check_condition re fl r q ev ctx = Inr m"
    and rest: "evaluate_loop re fl rs q ev ctx (acc @ [eval_result r m]) = Inr evs"
    by (auto split: sum.splits)
  from Cons.IH [OF rest] obtain new where
    new: "evs = (acc @ [eval_result r m]) @ new" "map ev_rule new = rs"
         "\<forall>e \<in> set new. \<not> matched e \<longrightarrow> ev_verdict e = ALLOW"
         "\<forall>e \<in> set new. matched e \<longrightarrow> ev_verdict e = rule_verdict (ev_rule e)"
    by blast
  then show ?case
    by (intro exI [of _ "eval_result r m # new"]) (simp add: eval_result_def)
qed

lemma evaluate_shape:
  assumes "evaluate re fl rules q ev ctx = Inr evs"
  shows "map ev_rule evs = rules \<and> (\<forall>e \<in> set evs. \<not> matched e \<longrightarrow> ev_verdict e = ALLOW)"
  using evaluate_loop_shape [of re fl rules q ev _ "[]" evs] assms
  by (auto simp: evaluate_def)

text \<open>
  C10. An \<open>evaluate\<close> call does not always return one evaluation per registered rule:
  with the rule \<open>contains:(\<close> registered, the error of the regular-expression library
  leaves \<open>evaluate\<close> and no evaluation list is returned. (Whenever \<open>evaluate\<close> does
  return, the list has the shape the claim describes: lemma \<open>evaluate_shape\<close>.)
\<close>

theorem evaluate_bad_regex_raises:
  "evaluate re_rejecting no_float [bad_regex_rule] ''any query'' empty_evidence None
     = Inl RegexError"
proof -
  have s: "strip ''contains:('' = ''contains:(''"
    by (rule strip_no_space) (simp add: is_space_def)
  have p: "strip ''('' = ''(''"
    by (rule strip_no_space) (simp add: is_space_def)
  show ?thesis
    by (simp add: evaluate_def check_condition_def bad_regex_rule_def s p startswith_def
        re_rejecting_def)
qed

section \<open>Properties of the decision agent\<close>

lemma strip_no_evidence: "strip ''no_evidence'' = ''no_evidence''"
  by (rule strip_no_space) (simp add: is_space_def)

lemma evaluate_na_rule:
  "evaluate re fl [na_rule] q empty_evidence ctx = Inr [eval_result na_rule True]"
  by (simp add: evaluate_def check_condition_def na_rule_def strip_no_evidence
      empty_evidence_def)

lemma evaluate_deny_rule:
  "evaluate re fl [deny_rule] q empty_evidence ctx = Inr [eval_result deny_rule True]"
  by (simp add: evaluate_def check_condition_def deny_rule_def strip_no_evidence
      empty_evidence_def)

lemma check_allowed_na: "check_allowed [eval_result na_rule True] = NEEDS_APPROVAL"
  by (simp add: check_allowed_def eval_result_def na_rule_def)

lemma check_allowed_deny: "check_allowed [eval_result deny_rule True] = DENY"
  by (simp add: check_allowed_def eval_result_def deny_rule_def)

lemma str_replace_prefix:
  assumes "old \<noteq> []"
  shows "str_replace old new (old @ s) = new @ str_replace old new s"
  using assms by (cases old) simp_all

text \<open>
  C3. When the aggregate policy verdict is DENY, \<open>decide\<close> returns a decision in state
  FAILED with the fixed denial text, sets the agent's state to FAILED, and the result
  does not depend on the answer generator or the reviewer: they are not called.
\<close>

theorem decide_deny_skips_generation:
  assumes "evaluate re fl (policy agent) q ev ctx = Inr evs"
    and "check_allowed evs = DENY"
  shows "decide re fl generate review nid now agent q ev ctx =
           (Inr \<lparr> decision_id = nid, dec_query = q,
                  answer = ''[DENIED] Policy violation: action not permitted.'',
                  dec_evidence = results ev, policy_evaluations = evs,
                  agent_state = FAILED, model_used = [], auditor_model = [],
                  created_at = now \<rparr>,
            agent\<lparr>state := FAILED\<rparr>)
       \<and> (\<forall>generate' review'.
            decide re fl generate' review' nid now agent q ev ctx =
            decide re fl generate review nid now agent q ev ctx)"
  using assms by (simp add: decide_def)

theorem decide_deny_skips_generation_witness:
  "decide re_rejecting no_float gen_stub review_stub ''d1'' 0 deny_agent ''q'' empty_evidence None =
     (Inr \<lparr> decision_id = ''d1'', dec_query = ''q'',
            answer = ''[DENIED] Policy violation: action not permitted.'',
            dec_evidence = [], policy_evaluations = [eval_result deny_rule True],
            agent_state = FAILED, model_used = [], auditor_model = [],
            created_at = 0 \<rparr>,
      deny_agent\<lparr>state := FAILED\<rparr>)"
proof -
  have e: "evaluate re_rejecting no_float (policy deny_agent) ''q'' empty_evidence None
             = Inr [eval_result deny_rule True]"
    by (simp add: deny_agent_def evaluate_deny_rule)
  from decide_deny_skips_generation [OF e check_allowed_deny, of gen_stub review_stub "''d1''" 0]
  show ?thesis by (simp add: empty_evidence_def)
qed

lemma decide_waiting:
  assumes "decide re fl generate review nid now agent0 q ev ctx = (Inr d, agent)"
    and "agent_state d = WAITING_APPROVAL"
  shows "\<exists>p. pending_decision agent = Some p \<and> decision_id p = decision_id d
           \<and> answer d = pending_marker @ answer p
           \<and> d = p\<lparr>agent_state := WAITING_APPROVAL, answer := pending_marker @ answer p\<rparr>"
  using assms
  by (auto simp: decide_def Let_def split: sum.splits if_splits content.splits)

text \<open>
  C8. When the pending decision has the given identifier, \<open>approve\<close> returns it in state
  COMPLETED, with the same identifier and with the pending marker removed from its answer,
  sets the agent's state to COMPLETED and clears the pending slot; in particular this
  holds for the identifier of a decision that \<open>decide\<close> has just returned in state
  WAITING_APPROVAL, and the approved answer is the returned answer with every occurrence
  of the marker removed. For any other identifier, and when nothing is pending,
  \<open>approve\<close> and \<open>reject\<close> return nothing and leave the agent as it was.
\<close>

theorem approve_reject_pending:
  "(\<forall>p. pending_decision agent = Some p \<and> decision_id p = did \<longrightarrow>
      approve agent did =
        (Some (p\<lparr>agent_state := COMPLETED,
                 answer := str_replace pending_marker [] (answer p)\<rparr>),
         agent\<lparr>state := COMPLETED, pending_decision := None\<rparr>))
   \<and> ((\<forall>p. pending_decision agent = Some p \<longrightarrow> decision_id p \<noteq> did) \<longrightarrow>
        approve agent did = (None, agent) \<and> reject agent did reason = (None, agent))
   \<and> (\<forall>d. decide re fl generate review nid now agent0 q ev ctx = (Inr d, agent)
          \<and> agent_state d = WAITING_APPROVAL \<longrightarrow>
        (\<exists>d'. approve agent (decision_id d) =
                 (Some d', agent\<lparr>state := COMPLETED, pending_decision := None\<rparr>)
             \<and> decision_id d' = decision_id d
             \<and> agent_state d' = COMPLETED
             \<and> answer d' = str_replace pending_marker [] (answer d)
             \<and> d' = d\<lparr>agent_state := COMPLETED,
                       answer := str_replace pending_marker [] (answer d)\<rparr>))"
proof (intro conjI allI impI)
  fix p assume "pending_decision agent = Some p \<and> decision_id p = did"
  then show "approve agent did =
        (Some (p\<lparr>agent_state := COMPLETED,
                 answer := str_replace pending_marker [] (answer p)\<rparr>),
         agent\<lparr>state := COMPLETED, pending_decision := None\<rparr>)"
    by (simp add: approve_def)
next
  assume "\<forall>p. pending_decision agent = Some p \<longrightarrow> decision_id p \<noteq> did"
  then show "approve agent did = (None, agent)"
    by (simp add: approve_def split: option.splits)
next
  assume "\<forall>p. pending_decision agent = Some p \<longrightarrow> decision_id p \<noteq> did"
  then show "reject agent did reason = (None, agent)"
    by (simp add: reject_def split: option.splits)
next
  fix d
  assume a: "decide re fl generate review nid now agent0 q ev ctx = (Inr d, agent)
             \<and> agent_state d = WAITING_APPROVAL"
  from decide_waiting [OF conjunct1 [OF a] conjunct2 [OF a]] obtain p where
    p: "pending_decision agent = Some p" "decision_id p = decision_id d"
       "answer d = pending_marker @ answer p"
       "d = p\<lparr>agent_state := WAITING_APPROVAL, answer := pending_marker @ answer p\<rparr>"
    by blast
  have m: "pending_marker \<noteq> []" by (simp add: pending_marker_def)
  have r: "str_replace pending_marker [] (answer d) = str_replace pending_marker [] (answer p)"
    unfolding p(3) using str_replace_prefix [OF m] by simp
  let ?d' = "p\<lparr>agent_state := COMPLETED, answer := str_replace pending_marker [] (answer p)\<rparr>"
  have "approve agent (decision_id d) =
          (Some ?d', agent\<lparr>state := COMPLETED, pending_decision := None\<rparr>)"
    using p(1,2) by (simp add: approve_def)
  moreover have "decision_id ?d' = decision_id d" using p(2) by simp
  moreover have "agent_state ?d' = COMPLETED" by simp
  moreover have "answer ?d' = str_replace pending_marker [] (answer d)" using r by simp
  moreover have "?d' = d\<lparr>agent_state := COMPLETED,
                       answer := str_replace pending_marker [] (answer d)\<rparr>"
  proof -
    have "d\<lparr>agent_state := COMPLETED, answer := x\<rparr>
            = p\<lparr>agent_state := COMPLETED, answer := x\<rparr>" for x
      by (subst p(4)) simp
    then show ?thesis by (simp add: r)
  qed
  ultimately show "\<exists>d'. approve agent (decision_id d) =
                 (Some d', agent\<lparr>state := COMPLETED, pending_decision := None\<rparr>)
             \<and> decision_id d' = decision_id d
             \<and> agent_state d' = COMPLETED
             \<and> answer d' = str_replace pending_marker [] (answer d)
             \<and> d' = d\<lparr>agent_state := COMPLETED,
                       answer := str_replace pending_marker [] (answer d)\<rparr>"
    by blast
qed

lemma decide_na_agent:
  assumes "policy agent = [na_rule]" and "settings agent = test_settings"
  shows "decide re fl generate review nid now agent q empty_evidence None =
           (Inr \<lparr> decision_id = nid, dec_query = q,
                  answer = pending_marker
                           @ ''No evidence found. Cannot answer without grounded data.'',
                  dec_evidence = [], policy_evaluations = [eval_result na_rule True],
                  agent_state = WAITING_APPROVAL, model_used = ''gpt-4o'',
                  auditor_model = ''claude'', created_at = now \<rparr>,
            agent\<lparr>state := WAITING_APPROVAL,
                   pending_decision := Some
                     \<lparr> decision_id = nid, dec_query = q,
                       answer = ''No evidence found. Cannot answer without grounded data.'',
                       dec_evidence = [], policy_evaluations = [eval_result na_rule True],
                       agent_state = COMPLETED, model_used = ''gpt-4o'',
                       auditor_model = ''claude'', created_at = now \<rparr>\<rparr>)"
proof -
  have r: "results empty_evidence = []" by (simp add: empty_evidence_def)
  show ?thesis
    using assms
    by (simp add: decide_def evaluate_na_rule check_allowed_na test_settings_def
        call_orchestrator_def call_auditor_def fallback_answer_def r Let_def)
qed

lemma agent_after_first_eq:
  "agent_after_first =
     na_agent\<lparr>state := WAITING_APPROVAL, pending_decision := Some first_pending\<rparr>"
  unfolding agent_after_first_def first_pending_def
  by (subst decide_na_agent) (simp_all add: na_agent_def)

lemma agent_after_second_eq:
  "agent_after_second =
     na_agent\<lparr>state := WAITING_APPROVAL, pending_decision := Some second_pending\<rparr>"
  unfolding agent_after_second_def second_pending_def
  by (subst decide_na_agent) (simp_all add: agent_after_first_eq na_agent_def)

lemma str_replace_no_evidence_text:
  "str_replace pending_marker [] ''No evidence found. Cannot answer without grounded data.''
     = ''No evidence found. Cannot answer without grounded data.''"
  by (simp add: pending_marker_def)

theorem approve_reject_pending_witness:
  "approve agent_after_first ''d1'' =
     (Some (first_pending\<lparr>agent_state := COMPLETED\<rparr>),
      agent_after_first\<lparr>state := COMPLETED, pending_decision := None\<rparr>)
   \<and> approve agent_after_first ''d7'' = (None, agent_after_first)
   \<and> reject agent_after_first ''d7'' ''no'' = (None, agent_after_first)
   \<and> approve na_agent ''d1'' = (None, na_agent)"
proof -
  have p: "pending_decision agent_after_first = Some first_pending"
    by (simp add: agent_after_first_eq)
  have i: "decision_id first_pending = ''d1''" by (simp add: first_pending_def)
  have a: "answer first_pending = ''No evidence found. Cannot answer without grounded data.''"
    by (simp add: first_pending_def)
  have e: "first_pending\<lparr>agent_state := COMPLETED,
              answer := str_replace pending_marker [] (answer first_pending)\<rparr>
           = first_pending\<lparr>agent_state := COMPLETED\<rparr>"
    unfolding a str_replace_no_evidence_text by (simp add: first_pending_def)
  have 1: "approve agent_after_first ''d1'' =
     (Some (first_pending\<lparr>agent_state := COMPLETED\<rparr>),
      agent_after_first\<lparr>state := COMPLETED, pending_decision := None\<rparr>)"
    using conjunct1 [OF approve_reject_pending [of agent_after_first "''d1''"], rule_format,
        of first_pending] p i e by simp
  have 2: "approve agent_after_first ''d7'' = (None, agent_after_first)
           \<and> reject agent_after_first ''d7'' ''no'' = (None, agent_after_first)"
    using conjunct1 [OF conjunct2 [OF approve_reject_pending [of agent_after_first "''d7''"]],
        rule_format, of "''no''"] p i by simp
  have 3: "approve na_agent ''d1'' = (None, na_agent)"
    using conjunct1 [OF conjunct2 [OF approve_reject_pending [of na_agent "''d1''"]],
        rule_format, of "''no''"] by (simp add: na_agent_def)
  from 1 2 3 show ?thesis by simp
qed

text \<open>
  C1 (as stated, refuted). After a first decision \<open>d1\<close> is pending, a second \<open>decide\<close>
  that also needs approval stores \<open>d2\<close> in the single pending slot; \<open>d1\<close> is gone, and
  \<open>approve\<close> and \<open>reject\<close> with its identifier return nothing.
\<close>

theorem second_pending_overwrites_first:
  "pending_decision agent_after_first = Some first_pending
   \<and> decision_id first_pending = ''d1''
   \<and> pending_decision agent_after_second = Some second_pending
   \<and> decision_id second_pending = ''d2''
   \<and> approve agent_after_second ''d1'' = (None, agent_after_second)
   \<and> reject agent_after_second ''d1'' ''no'' = (None, agent_after_second)"
  by (simp add: agent_after_first_eq agent_after_second_eq approve_def reject_def
      first_pending_def second_pending_def)

text \<open>
  C1 (amended). A \<open>decide\<close> call whose aggregate verdict is NEEDS_APPROVAL, with
  human-in-loop enabled, does one of two things. Where the orchestrator step yields a
  string, the call returns a decision in state WAITING_APPROVAL and replaces whatever
  the pending slot held by the new decision: afterwards the slot holds the decision
  with the new identifier and the generated answer, and \<open>approve\<close> and \<open>reject\<close> return
  nothing for every other identifier, that of an earlier pending decision included.
  Where the provider's reply carries a content that is not a string, building the
  decision raises \<open>ValidationError\<close> before the slot is written: the call returns no
  decision, the agent is left in state RUNNING and the slot keeps what it held.
\<close>

theorem decide_replaces_pending:
  assumes "evaluate re fl (policy agent) q ev ctx = Inr evs"
    and "check_allowed evs = NEEDS_APPROVAL"
    and "enable_human_in_loop (settings agent)"
  shows "(\<forall>ans. call_orchestrator generate (settings agent) q ev = Str ans \<longrightarrow>
           (\<exists>d agent'. decide re fl generate review nid now agent q ev ctx = (Inr d, agent')
              \<and> agent_state d = WAITING_APPROVAL \<and> decision_id d = nid
              \<and> answer d = pending_marker @ ans
              \<and> state agent' = WAITING_APPROVAL
              \<and> (\<exists>p. pending_decision agent' = Some p \<and> decision_id p = nid
                       \<and> answer p = ans)
              \<and> (\<forall>did reason. did \<noteq> nid \<longrightarrow>
                    approve agent' did = (None, agent')
                    \<and> reject agent' did reason = (None, agent'))))
       \<and> (call_orchestrator generate (settings agent) q ev = NonStr \<longrightarrow>
            decide re fl generate review nid now agent q ev ctx
              = (Inl ValidationError, agent\<lparr>state := RUNNING\<rparr>)
            \<and> pending_decision (snd (decide re fl generate review nid now agent q ev ctx))
                = pending_decision agent)
       \<and> (api_key (orchestrator (settings agent)) \<noteq> []
            \<and> generate q ev = Content NonStr \<longrightarrow>
            call_orchestrator generate (settings agent) q ev = NonStr)
       \<and> (api_key (orchestrator (settings agent)) = [] \<or> generate q ev \<noteq> Content NonStr
            \<longrightarrow> (\<exists>ans. call_orchestrator generate (settings agent) q ev = Str ans))"
proof (intro conjI allI impI)
  fix ans assume "call_orchestrator generate (settings agent) q ev = Str ans"
  with assms
  show "\<exists>d agent'. decide re fl generate review nid now agent q ev ctx = (Inr d, agent')
              \<and> agent_state d = WAITING_APPROVAL \<and> decision_id d = nid
              \<and> answer d = pending_marker @ ans
              \<and> state agent' = WAITING_APPROVAL
              \<and> (\<exists>p. pending_decision agent' = Some p \<and> decision_id p = nid
                       \<and> answer p = ans)
              \<and> (\<forall>did reason. did \<noteq> nid \<longrightarrow>
                    approve agent' did = (None, agent')
                    \<and> reject agent' did reason = (None, agent'))"
    by (simp add: decide_def approve_def reject_def Let_def)
next
  assume n: "call_orchestrator generate (settings agent) q ev = NonStr"
  with assms
  show d: "decide re fl generate review nid now agent q ev ctx
          = (Inl ValidationError, agent\<lparr>state := RUNNING\<rparr>)"
    by (simp add: decide_def Let_def)
  show "pending_decision (snd (decide re fl generate review nid now agent q ev ctx))
          = pending_decision agent"
    unfolding d by simp
next
  assume "api_key (orchestrator (settings agent)) \<noteq> [] \<and> generate q ev = Content NonStr"
  then show "call_orchestrator generate (settings agent) q ev = NonStr"
    by (simp add: call_orchestrator_def)
next
  assume "api_key (orchestrator (settings agent)) = [] \<or> generate q ev \<noteq> Content NonStr"
  then show "\<exists>ans. call_orchestrator generate (settings agent) q ev = Str ans"
  proof (cases "generate q ev")
    case CallFailed
    then show ?thesis by (simp add: call_orchestrator_def)
  next
    case (Content c)
    with \<open>api_key (orchestrator (settings agent)) = [] \<or> generate q ev \<noteq> Content NonStr\<close>
    show ?thesis by (cases c) (auto simp: call_orchestrator_def)
  qed
qed

theorem decide_replaces_pending_witness:
  "(\<exists>d agent'. decide re_rejecting no_float gen_stub review_stub ''d2'' 1 agent_after_first
                 ''second question'' empty_evidence None = (Inr d, agent')
           \<and> agent_state d = WAITING_APPROVAL \<and> decision_id d = ''d2''
           \<and> state agent' = WAITING_APPROVAL
           \<and> (\<exists>p. pending_decision agent' = Some p \<and> decision_id p = ''d2'')
           \<and> (\<forall>did reason. did \<noteq> ''d2'' \<longrightarrow>
                 approve agent' did = (None, agent') \<and> reject agent' did reason = (None, agent')))
   \<and> decide re_rejecting no_float null_stub review_stub ''d2'' 1 keyed_agent
         ''second question'' empty_evidence None
       = (Inl ValidationError, keyed_agent\<lparr>state := RUNNING\<rparr>)
   \<and> pending_decision (keyed_agent\<lparr>state := RUNNING\<rparr>) = Some first_pending"
proof -
  have e: "evaluate re_rejecting no_float (policy agent_after_first) ''second question''
             empty_evidence None = Inr [eval_result na_rule True]"
    by (simp add: agent_after_first_eq na_agent_def evaluate_na_rule)
  have h: "enable_human_in_loop (settings agent_after_first)"
    by (simp add: agent_after_first_eq na_agent_def test_settings_def)
  have c: "call_orchestrator gen_stub (settings agent_after_first) ''second question''
             empty_evidence
           = Str ''No evidence found. Cannot answer without grounded data.''"
    by (simp add: agent_after_first_eq na_agent_def test_settings_def call_orchestrator_def
        fallback_answer_def empty_evidence_def)
  have e': "evaluate re_rejecting no_float (policy keyed_agent) ''second question''
             empty_evidence None = Inr [eval_result na_rule True]"
    by (simp add: keyed_agent_def evaluate_na_rule)
  have h': "enable_human_in_loop (settings keyed_agent)"
    by (simp add: keyed_agent_def keyed_settings_def)
  have k: "api_key (orchestrator (settings keyed_agent)) \<noteq> []
           \<and> null_stub ''second question'' empty_evidence = Content NonStr"
    by (simp add: keyed_agent_def keyed_settings_def null_stub_def)
  from conjunct1 [OF conjunct2 [OF conjunct2
        [OF decide_replaces_pending [OF e' check_allowed_na h', of null_stub]]],
      rule_format, OF k]
  have c': "call_orchestrator null_stub (settings keyed_agent) ''second question''
              empty_evidence = NonStr" .
  from conjunct1 [OF decide_replaces_pending [OF e check_allowed_na h], rule_format, OF c,
      of review_stub "''d2''" 1]
  have 1: "\<exists>d agent'. decide re_rejecting no_float gen_stub review_stub ''d2'' 1
                 agent_after_first ''second question'' empty_evidence None = (Inr d, agent')
           \<and> agent_state d = WAITING_APPROVAL \<and> decision_id d = ''d2''
           \<and> state agent' = WAITING_APPROVAL
           \<and> (\<exists>p. pending_decision agent' = Some p \<and> decision_id p = ''d2'')
           \<and> (\<forall>did reason. did \<noteq> ''d2'' \<longrightarrow>
                 approve agent' did = (None, agent') \<and> reject agent' did reason = (None, agent'))"
    by blast
  from conjunct1 [OF conjunct2 [OF decide_replaces_pending [OF e' check_allowed_na h']],
      rule_format, OF c', of review_stub "''d2''" 1]
  have 2: "decide re_rejecting no_float null_stub review_stub ''d2'' 1 keyed_agent
         ''second question'' empty_evidence None
       = (Inl ValidationError, keyed_agent\<lparr>state := RUNNING\<rparr>)"
    by simp
  have 3: "pending_decision (keyed_agent\<lparr>state := RUNNING\<rparr>) = Some first_pending"
    by (simp add: keyed_agent_def)
  from 1 2 3 show ?thesis by blast
qed
section \<open>Properties of the knowledge store\<close>
















lemma rrf_update_map_of:
  "map_of (rrf_update cid c v acc) k =
     (if k = cid then Some (c, fused_score acc cid + v) else map_of acc k)"
  by (induction acc) (auto simp: fused_score_def)

lemma rrf_update_keys:
  "map fst (rrf_update cid c v acc) =
     (if cid \<in> fst ` set acc then map fst acc else map fst acc @ [cid])"
  by (induction acc) force+


lemma rrf_ranked_absent:
  assumes "cid \<notin> chunk_id ` fst ` set xs"
  shows "map_of (rrf_ranked k xs r acc) cid = map_of acc cid"
  using assms
proof (induction xs arbitrary: r acc)
  case Nil
  then show ?case by simp
next
  case (Cons x xs)
  obtain c s where x: "x = (c, s)" by (cases x)
  from Cons.prems x have n: "cid \<noteq> chunk_id c" and a: "cid \<notin> chunk_id ` fst ` set xs"
    by auto
  show ?case unfolding x using Cons.IH [OF a] n by (simp add: rrf_update_map_of)
qed

lemma rrf_ranked_present:
  assumes "distinct (map (chunk_id \<circ> fst) xs)" and "i < length xs"
  shows "map_of (rrf_ranked k xs r acc) (chunk_id (fst (xs ! i)))
           = Some (fst (xs ! i),
                   fused_score acc (chunk_id (fst (xs ! i))) + 1.0 / real (k + (r + i)))"
  using assms
proof (induction xs arbitrary: r acc i)
  case Nil
  then show ?case by simp
next
  case (Cons x xs)
  obtain c s where x: "x = (c, s)" by (cases x)
  from Cons.prems(1) x have d: "distinct (map (chunk_id \<circ> fst) xs)"
    and n: "chunk_id c \<notin> chunk_id ` fst ` set xs" by (auto simp: image_image comp_def)
  show ?case
  proof (cases i)
    case 0
    with x rrf_ranked_absent [OF n] show ?thesis by (simp add: rrf_update_map_of)
  next
    case (Suc j)
    with Cons.prems(2) have j: "j < length xs" by simp
    then have "chunk_id (fst (xs ! j)) \<in> chunk_id ` fst ` set xs" by simp
    with n have ne: "chunk_id (fst (xs ! j)) \<noteq> chunk_id c" by metis
    have f: "fused_score (rrf_update (chunk_id c) c v acc) (chunk_id (fst (xs ! j)))
               = fused_score acc (chunk_id (fst (xs ! j)))" for v
      using ne by (simp add: fused_score_def rrf_update_map_of)
    from Cons.IH [OF d j] show ?thesis unfolding x Suc by (simp add: f)
  qed
qed


lemma sort_desc_distinct:
  assumes "distinct (map (chunk_id \<circ> fst) xs)"
  shows "distinct (map (chunk_id \<circ> fst) (sort_desc xs))"
  using assms by (simp add: distinct_map sort_desc_def)

lemma sort_desc_set: "set (sort_desc xs) = set xs"
  by (simp add: sort_desc_def)


lemma rrf_fuse_two:
  "rrf_fuse [bm, vs] =
     map (\<lambda>(cid, c, score). (c, score))
       (rrf_ranked 60 (sort_desc vs) 1 (rrf_ranked 60 (sort_desc bm) 1 []))"
  by (simp add: rrf_fuse_def)






lemma bm25_score_chunks: "map fst (bm25_score store q) = chunks store"
  by (simp add: bm25_score_def Let_def comp_def)

lemma vector_score_chunks: "map fst (vector_score store q) = chunks store"
  by (simp add: vector_score_def comp_def)

lemma show_nat_0: "show_nat 0 = ''0''"
  by code_simp






lemma filter_take_sorted:
  assumes "sorted (map (\<lambda>x. - snd x) xs)"
  shows "filter (\<lambda>(c, score). \<not> score \<le> 0) (take k xs)
           = take k (filter (\<lambda>(c, score). 0 < score) (xs :: ('a \<times> real) list))"
  using assms
proof (induction xs arbitrary: k)
  case Nil
  then show ?case by simp
next
  case (Cons x xs)
  obtain c s where x: "x = (c, s)" by (cases x)
  from Cons.prems have srt: "sorted (map (\<lambda>x. - snd x) xs)"
    and le: "\<forall>y \<in> set xs. snd y \<le> s" by (auto simp: x)
  show ?case
  proof (cases k)
    case 0
    then show ?thesis by simp
  next
    case (Suc n)
    show ?thesis
    proof (cases "0 < s")
      case True
      with Cons.IH [OF srt, of n] show ?thesis by (simp add: x Suc)
    next
      case False
      with le have "\<forall>y \<in> set xs. \<not> 0 < snd y" by fastforce
      then have e: "filter (\<lambda>(c, score). 0 < score) xs = []"
        by (auto simp: filter_empty_conv)
      from Cons.IH [OF srt, of n] e False show ?thesis by (simp add: x Suc)
    qed
  qed
qed

lemma sort_desc_sorted: "sorted (map (\<lambda>x. - snd x) (sort_desc xs))"
  by (simp add: sort_desc_def)

lemma sort_desc_stable:
  "filter (\<lambda>x. snd x = v) (sort_desc xs) = filter (\<lambda>x. snd x = v) (xs :: ('a \<times> real) list)"
proof -
  have "filter (\<lambda>y. - snd y = - v) (sort_key (\<lambda>x. - snd x) xs)
          = filter (\<lambda>y. - snd y = - v) xs"
    by (rule sort_key_stable)
  then show ?thesis by (simp add: sort_desc_def)
qed

lemma picked_ties:
  "prefix (filter (\<lambda>x. snd x = v)
             (take k (filter (\<lambda>(c, score). 0 < score) (sort_desc xs))))
          (filter (\<lambda>x. snd x = v) (xs :: ('a \<times> real) list))"
proof -
  let ?pos = "\<lambda>(c :: 'a, score :: real). 0 < score"
  have 1: "prefix (filter (\<lambda>x. snd x = v) (take k (filter ?pos (sort_desc xs))))
             (filter (\<lambda>x. snd x = v) (filter ?pos (sort_desc xs)))"
    by (rule filter_mono_prefix) (rule take_is_prefix)
  have 2: "filter (\<lambda>x. snd x = v) (filter ?pos (sort_desc xs))
             = (if 0 < v then filter (\<lambda>x. snd x = v) (sort_desc xs) else [])"
    by (auto simp: filter_empty_conv intro: filter_cong)
  show ?thesis
    using 1 unfolding 2 sort_desc_stable by (simp split: if_splits)
qed

lemma retrieve_results:
  assumes "0 \<le> top_k"
  shows "results (retrieve store q top_k strategy)
           = retrieve_filter_first store q (nat top_k) strategy"
proof (cases "chunks store = []")
  case True
  then have "score_chunks store q strategy = []"
    by (simp add: score_chunks_def bm25_score_def vector_score_def rrf_fuse_def Let_def
        sort_desc_def)
  with True show ?thesis
    by (simp add: retrieve_def retrieve_filter_first_def sort_desc_def)
next
  case False
  with assms show ?thesis
    by (simp add: retrieve_def retrieve_filter_first_def py_take_def Let_def
        filter_take_sorted [OF sort_desc_sorted])
qed

lemma map_of_keys_values:
  assumes "distinct (map fst xs)"
  shows "map (\<lambda>k. (k, the (map_of xs k))) (map fst xs) = xs"
  using assms
proof (induction xs)
  case Nil
  then show ?case by simp
next
  case (Cons x xs)
  obtain k v where x: "x = (k, v)" by (cases x)
  from Cons.prems x have n: "k \<notin> fst ` set xs" and d: "distinct (map fst xs)" by auto
  have "map (\<lambda>k'. (k', the (map_of (x # xs) k'))) (map fst xs)
          = map (\<lambda>k'. (k', the (map_of xs k'))) (map fst xs)"
    using n by (auto simp: x)
  with Cons.IH [OF d] show ?case by (simp add: x)
qed

lemma rrf_ranked_key_list:
  assumes "distinct (map (chunk_id \<circ> fst) xs)"
  shows "map fst (rrf_ranked k xs r acc)
           = map fst acc @ filter (\<lambda>i. i \<notin> fst ` set acc) (map (chunk_id \<circ> fst) xs)"
  using assms
proof (induction xs arbitrary: r acc)
  case Nil
  then show ?case by simp
next
  case (Cons x xs)
  obtain c s where x: "x = (c, s)" by (cases x)
  from Cons.prems x have d: "distinct (map (chunk_id \<circ> fst) xs)"
    and n: "chunk_id c \<notin> set (map (chunk_id \<circ> fst) xs)" by (auto simp: comp_def)
  let ?acc = "rrf_update (chunk_id c) c (1.0 / real (k + r)) acc"
  have ih: "map fst (rrf_ranked k xs (r + 1) ?acc)
              = map fst ?acc @ filter (\<lambda>i. i \<notin> fst ` set ?acc) (map (chunk_id \<circ> fst) xs)"
    by (rule Cons.IH [OF d])
  have s: "fst ` set ?acc = insert (chunk_id c) (fst ` set acc)"
  proof -
    have "set (map fst ?acc) = insert (chunk_id c) (set (map fst acc))"
      unfolding rrf_update_keys by auto
    then show ?thesis by simp
  qed
  have f: "filter (\<lambda>i. i \<notin> fst ` set ?acc) (map (chunk_id \<circ> fst) xs)
             = filter (\<lambda>i. i \<notin> fst ` set acc) (map (chunk_id \<circ> fst) xs)"
    unfolding s using n by (intro filter_cong) force+
  show ?case
    unfolding x using ih unfolding f by (simp add: rrf_update_keys comp_def)
qed

lemma rrf_fuse_order:
  assumes "distinct (map chunk_id cs)" and "map fst bm = cs" and "map fst vs = cs"
  shows "map fst (rrf_fuse [bm, vs]) = map fst (sort_desc bm)"
proof -
  let ?B = "sort_desc bm" and ?V = "sort_desc vs"
  let ?acc1 = "rrf_ranked 60 ?B 1 []"
  let ?acc2 = "rrf_ranked 60 ?V 1 ?acc1"
  have ib: "map (chunk_id \<circ> fst) bm = map chunk_id cs"
    using assms(2) by (simp add: map_map [symmetric] del: map_map)
  have iv: "map (chunk_id \<circ> fst) vs = map chunk_id cs"
    using assms(3) by (simp add: map_map [symmetric] del: map_map)
  have dB: "distinct (map (chunk_id \<circ> fst) ?B)"
    by (rule sort_desc_distinct) (simp add: ib assms(1))
  have dV: "distinct (map (chunk_id \<circ> fst) ?V)"
    by (rule sort_desc_distinct) (simp add: iv assms(1))
  have sB: "fst ` set ?B = set cs"
    unfolding sort_desc_set using assms(2) by (metis set_map)
  have sV: "fst ` set ?V = set cs"
    unfolding sort_desc_set using assms(3) by (metis set_map)
  have inj: "inj_on chunk_id (set cs)"
    using assms(1) by (simp add: distinct_map)
  have k1: "map fst ?acc1 = map (chunk_id \<circ> fst) ?B"
    using rrf_ranked_key_list [OF dB, of 60 1 "[]"] by simp
  have sub: "set (map (chunk_id \<circ> fst) ?V) = fst ` set ?acc1"
  proof -
    have "set (map (chunk_id \<circ> fst) ?V) = chunk_id ` fst ` set ?V"
      by (simp add: image_comp)
    then have "set (map (chunk_id \<circ> fst) ?V) = chunk_id ` set cs" unfolding sV .
    moreover have "fst ` set ?acc1 = chunk_id ` set cs"
    proof -
      have "fst ` set ?acc1 = set (map fst ?acc1)" by simp
      also have "\<dots> = chunk_id ` fst ` set ?B" unfolding k1 by (simp add: image_comp)
      finally show ?thesis unfolding sB .
    qed
    ultimately show ?thesis by simp
  qed
  have k2: "map fst ?acc2 = map (chunk_id \<circ> fst) ?B"
  proof -
    have "filter (\<lambda>i. i \<notin> fst ` set ?acc1) (map (chunk_id \<circ> fst) ?V) = []"
      unfolding filter_empty_conv sub [symmetric] by simp
    with rrf_ranked_key_list [OF dV, of 60 1 ?acc1] k1 show ?thesis by simp
  qed
  have d2: "distinct (map fst ?acc2)" unfolding k2 by (rule dB)
  have own: "fst (the (map_of ?acc2 (chunk_id (fst x)))) = fst x" if x: "x \<in> set ?B" for x
  proof -
    from x sB have xc: "fst x \<in> set cs" by force
    with sV have "fst x \<in> fst ` set ?V" by simp
    then obtain y where y: "y \<in> set ?V" "fst y = fst x" by force
    then obtain j where j: "j < length ?V" "?V ! j = y" by (auto simp: in_set_conv_nth)
    from rrf_ranked_present [OF dV j(1), of 60 1 ?acc1] j(2) y(2)
    show ?thesis by simp
  qed
  have "map fst (rrf_fuse [bm, vs]) = map (\<lambda>e. fst (snd e)) ?acc2"
    unfolding rrf_fuse_two by (simp add: case_prod_beta comp_def)
  also have "\<dots> = map (\<lambda>e. fst (snd e)) (map (\<lambda>k. (k, the (map_of ?acc2 k))) (map fst ?acc2))"
    unfolding map_of_keys_values [OF d2] ..
  also have "\<dots> = map (\<lambda>x. fst (the (map_of ?acc2 (chunk_id (fst x))))) ?B"
    unfolding k2 by (simp add: comp_def)
  also have "\<dots> = map fst ?B"
    by (rule map_cong [OF refl]) (rule own)
  finally show ?thesis .
qed

lemma show_nat_1: "show_nat (Suc 0) = ''1''"
  by code_simp

lemma tie_store_chunks: "chunks tie_store = [tie_a, tie_b]"
  by (simp add: tie_store_def index_document_def empty_store_def tie_doc_def split_text_def
      tie_a_def tie_b_def show_nat_0 show_nat_1)

lemma tie_words:
  "split_ws (lower ''x'') = [''x'']"
  "split_ws (lower ''x y'') = [''x'', ''y'']"
  "split_ws (lower ''x x y z'') = [''x'', ''x'', ''y'', ''z'']"
  "split_ws ''x y'' = [''x'', ''y'']"
  "split_ws ''x x y z'' = [''x'', ''x'', ''y'', ''z'']"
  by code_simp+

lemma tie_bm25:
  "bm25_score tie_store ''x''
     = [(tie_a, bm25_term 1.5 0.75 2 3 1 2 2), (tie_b, bm25_term 1.5 0.75 2 3 2 2 4)]"
proof -
  have t: "chunk_text tie_a = ''x y''" "chunk_text tie_b = ''x x y z''"
    by (simp_all add: tie_a_def tie_b_def)
  show ?thesis
    by (simp add: bm25_score_def tie_store_chunks tie_words t bm25_chunk_def counter_get_def
        Let_def eval_nat_numeral)
qed

lemma tie_vector: "vector_score tie_store ''x'' = [(tie_a, 1 / 2), (tie_b, 1 / 3)]"
proof -
  have t: "chunk_text tie_a = ''x y''" "chunk_text tie_b = ''x x y z''"
    by (simp_all add: tie_a_def tie_b_def)
  have a: "{''x''} \<inter> {''x'', ''y''} = {''x''}" by auto
  have b: "{''x''} \<inter> {''x'', ''y'', ''z''} = {''x''}" by auto
  have "{''x'', ''y'', ''x''} = {''x'', ''y''}" by auto
  then have c: "card {''x'', ''y'', ''x''} = 2" by simp
  have "{''x'', ''y'', ''z'', ''x''} = {''x'', ''y'', ''z''}" by auto
  then have d: "card {''x'', ''y'', ''z'', ''x''} = 3" by simp
  show ?thesis
    by (simp add: vector_score_def tie_store_chunks tie_words t vector_chunk_def a b c d Let_def)
qed

lemma tie_bm25_order: "bm25_term 1.5 0.75 2 3 1 2 2 < bm25_term 1.5 0.75 2 3 2 2 4"
proof -
  have i: "0 < ln (6 / 5 :: real)" by simp
  have a: "bm25_term 1.5 0.75 2 3 1 2 2 = ln (6 / 5) * (20 / 17)"
    by (simp add: bm25_term_def Let_def)
  have b: "bm25_term 1.5 0.75 2 3 2 2 4 = ln (6 / 5) * (40 / 31)"
    by (simp add: bm25_term_def Let_def)
  show ?thesis unfolding a b using i by simp
qed

lemma sort_desc_swap:
  assumes "a < b"
  shows "sort_desc [(x, a), (y, b)] = [(y, b), (x, a)]"
  using assms by (simp add: sort_desc_def)

lemma sort_desc_keep:
  assumes "b \<le> a"
  shows "sort_desc [(x, a), (y, b)] = [(x, a), (y, b)]"
  using assms by (simp add: sort_desc_def)

lemma tie_hybrid:
  "score_chunks tie_store ''x'' ''hybrid''
     = [(tie_b, 1 / 61 + 1 / 62), (tie_a, 1 / 61 + 1 / 62)]"
proof -
  have n: "chunk_id tie_a \<noteq> chunk_id tie_b" by (simp add: tie_a_def tie_b_def)
  have s: "score_chunks tie_store ''x'' ''hybrid''
             = rrf_fuse [bm25_score tie_store ''x'', vector_score tie_store ''x'']"
    by (simp add: score_chunks_def)
  have v: "sort_desc [(tie_a, 1 / 2), (tie_b, 1 / 3)] = [(tie_a, 1 / 2), (tie_b, 1 / 3 :: real)]"
    by (rule sort_desc_keep) simp
  show ?thesis
    unfolding s tie_bm25 tie_vector rrf_fuse_two sort_desc_swap [OF tie_bm25_order] v
    using n by simp
qed

text \<open>
  C4 (as stated, refuted). The store holds the chunks \<open>x y\<close> and \<open>x x y z\<close>, indexed in this
  order, and the query is \<open>x\<close>. The second chunk is first by BM25 and the first chunk is
  first by the vector score, so that the fusion gives both the same score; the results
  list the second chunk before the first, against the store's insertion order.
\<close>

theorem hybrid_tie_follows_bm25_rank:
  "map chunk_text (chunks tie_store) = [''x y'', ''x x y z'']
   \<and> score_chunks tie_store ''x'' ''hybrid''
       = [(tie_b, 1 / 61 + 1 / 62), (tie_a, 1 / 61 + 1 / 62)]
   \<and> map res_text (results (retrieve tie_store ''x'' 5 ''hybrid'')) = [''x x y z'', ''x y'']
   \<and> map res_score (results (retrieve tie_store ''x'' 5 ''hybrid''))
       = [round4 (1 / 61 + 1 / 62), round4 (1 / 61 + 1 / 62)]"
proof -
  have 1: "map chunk_text (chunks tie_store) = [''x y'', ''x x y z'']"
    by (simp add: tie_store_chunks tie_a_def tie_b_def)
  have s: "sort_desc [(tie_b, 1 / 61 + 1 / 62), (tie_a, 1 / 61 + 1 / 62)]
             = [(tie_b, 1 / 61 + 1 / 62), (tie_a, 1 / 61 + 1 / 62 :: real)]"
    by (rule sort_desc_keep) simp
  have r: "results (retrieve tie_store ''x'' 5 ''hybrid'')
             = [mk_result (tie_b, 1 / 61 + 1 / 62), mk_result (tie_a, 1 / 61 + 1 / 62)]"
    unfolding retrieve_def tie_hybrid Let_def s
    by (simp add: tie_store_chunks py_take_def)
  have 3: "map res_text (results (retrieve tie_store ''x'' 5 ''hybrid''))
             = [''x x y z'', ''x y'']"
    unfolding r by (simp add: mk_result_def tie_a_def tie_b_def)
  have 4: "map res_score (results (retrieve tie_store ''x'' 5 ''hybrid''))
       = [round4 (1 / 61 + 1 / 62), round4 (1 / 61 + 1 / 62)]"
    unfolding r by (simp add: mk_result_def)
  from 1 tie_hybrid 3 4 show ?thesis by simp
qed

text \<open>
  A negative \<open>top_k\<close> is a slice bound counted from the end of the sorted list. On the
  same store with the query \<open>z\<close> and the strategy \<open>bm25\<close>, the bound \<open>-1\<close> drops the
  chunk with score zero and the chunk with a positive score is returned, whereas the
  same slice taken after the removal of the zero scores leaves nothing.
\<close>

lemma tie_words_z: "split_ws (lower ''z'') = [''z'']"
  by code_simp

lemma tie_bm25_z:
  "bm25_score tie_store ''z'' = [(tie_a, 0), (tie_b, bm25_term 1.5 0.75 2 3 1 1 4)]"
proof -
  have t: "chunk_text tie_a = ''x y''" "chunk_text tie_b = ''x x y z''"
    by (simp_all add: tie_a_def tie_b_def)
  show ?thesis
    by (simp add: bm25_score_def tie_store_chunks tie_words tie_words_z t bm25_chunk_def
        counter_get_def Let_def eval_nat_numeral)
qed

lemma tie_bm25_z_positive: "0 < bm25_term 1.5 0.75 2 3 1 1 4"
proof -
  have i: "0 < ln (2 :: real)" by simp
  have a: "bm25_term 1.5 0.75 2 3 1 1 4 = ln 2 * (20 / 23)"
    by (simp add: bm25_term_def Let_def)
  show ?thesis unfolding a using i by simp
qed

lemma negative_top_k_slices_from_the_end:
  "map res_text (results (retrieve tie_store ''z'' (- 1) ''bm25'')) = [''x x y z'']
   \<and> py_take (- 1) (filter (\<lambda>(c, score). 0 < score)
                      (sort_desc (score_chunks tie_store ''z'' ''bm25''))) = []"
proof -
  have s: "score_chunks tie_store ''z'' ''bm25''
             = [(tie_a, 0), (tie_b, bm25_term 1.5 0.75 2 3 1 1 4)]"
    by (simp add: score_chunks_def tie_bm25_z)
  have o: "sort_desc [(tie_a, 0), (tie_b, bm25_term 1.5 0.75 2 3 1 1 4)]
             = [(tie_b, bm25_term 1.5 0.75 2 3 1 1 4), (tie_a, 0)]"
    by (rule sort_desc_swap [OF tie_bm25_z_positive])
  have 1: "map res_text (results (retrieve tie_store ''z'' (- 1) ''bm25'')) = [''x x y z'']"
    unfolding retrieve_def s Let_def o
    using tie_bm25_z_positive
    by (simp add: tie_store_chunks py_take_def mk_result_def tie_b_def)
  have 2: "py_take (- 1) (filter (\<lambda>(c, score). 0 < score)
                      (sort_desc (score_chunks tie_store ''z'' ''bm25''))) = []"
    unfolding s o using tie_bm25_z_positive by (simp add: py_take_def)
  from 1 2 show ?thesis by simp
qed

text \<open>
  C4 (amended). For a non-negative \<open>top_k\<close> the results are those obtained by removing
  the chunks whose score is not strictly positive and then truncating to \<open>top_k\<close>.
  Among the results, the chunks that have one and the same score are the first chunks
  with that score in the list produced by the scoring strategy, in the order of that
  list. For the strategies \<open>bm25\<close> and \<open>vector\<close> that list is in store insertion order.
  For the hybrid strategy, on a store whose chunk identifiers are pairwise distinct, it
  is in descending order of BM25 score (chunks with equal BM25 score in insertion
  order): chunks with equal fused score are ordered by their BM25 rank.
\<close>

theorem retrieve_filter_and_ties:
  assumes "0 \<le> top_k"
  shows "results (retrieve store q top_k strategy)
           = retrieve_filter_first store q (nat top_k) strategy
       \<and> (\<forall>v. prefix
                 (filter (\<lambda>x. snd x = v)
                    (take (nat top_k)
                       (filter (\<lambda>(c, score). 0 < score)
                          (sort_desc (score_chunks store q strategy)))))
                 (filter (\<lambda>x. snd x = v) (score_chunks store q strategy)))
       \<and> (strategy = ''bm25'' \<or> strategy = ''vector''
            \<longrightarrow> map fst (score_chunks store q strategy) = chunks store)
       \<and> (strategy \<noteq> ''bm25'' \<and> strategy \<noteq> ''vector''
            \<and> distinct (map chunk_id (chunks store))
            \<longrightarrow> map fst (score_chunks store q strategy)
                  = map fst (sort_desc (bm25_score store q)))"
proof (intro conjI allI impI)
  show "results (retrieve store q top_k strategy)
          = retrieve_filter_first store q (nat top_k) strategy"
    by (rule retrieve_results [OF assms])
next
  fix v
  show "prefix
          (filter (\<lambda>x. snd x = v)
             (take (nat top_k)
                (filter (\<lambda>(c, score). 0 < score)
                   (sort_desc (score_chunks store q strategy)))))
          (filter (\<lambda>x. snd x = v) (score_chunks store q strategy))"
    by (rule picked_ties)
next
  assume "strategy = ''bm25'' \<or> strategy = ''vector''"
  then show "map fst (score_chunks store q strategy) = chunks store"
    by (auto simp: score_chunks_def bm25_score_chunks vector_score_chunks)
next
  assume a: "strategy \<noteq> ''bm25'' \<and> strategy \<noteq> ''vector''
             \<and> distinct (map chunk_id (chunks store))"
  then have "score_chunks store q strategy
               = rrf_fuse [bm25_score store q, vector_score store q]"
    by (simp add: score_chunks_def)
  moreover from a have d: "distinct (map chunk_id (chunks store))" by simp
  ultimately show "map fst (score_chunks store q strategy)
                     = map fst (sort_desc (bm25_score store q))"
    using rrf_fuse_order [OF d bm25_score_chunks vector_score_chunks] by simp
qed

theorem retrieve_filter_and_ties_witness:
  "results (retrieve tie_store ''x'' 5 ''hybrid'')
     = retrieve_filter_first tie_store ''x'' 5 ''hybrid''
   \<and> map fst (score_chunks tie_store ''x'' ''bm25'') = chunks tie_store
   \<and> map fst (score_chunks tie_store ''x'' ''hybrid'')
       = map fst (sort_desc (bm25_score tie_store ''x''))"
proof -
  have z: "(0::int) \<le> 5" by simp
  have d: "distinct (map chunk_id (chunks tie_store))"
    by (simp add: tie_store_chunks tie_a_def tie_b_def)
  from conjunct1 [OF retrieve_filter_and_ties [OF z, of tie_store "''x''" "''hybrid''"]]
  have 1: "results (retrieve tie_store ''x'' 5 ''hybrid'')
             = retrieve_filter_first tie_store ''x'' 5 ''hybrid''"
    by simp
  from conjunct1 [OF conjunct2 [OF conjunct2
        [OF retrieve_filter_and_ties [OF z, of tie_store "''x''" "''bm25''"]]]]
  have 2: "map fst (score_chunks tie_store ''x'' ''bm25'') = chunks tie_store"
    by simp
  from conjunct2 [OF conjunct2 [OF conjunct2
        [OF retrieve_filter_and_ties [OF z, of tie_store "''x''" "''hybrid''"]]]] d
  have 3: "map fst (score_chunks tie_store ''x'' ''hybrid'')
             = map fst (sort_desc (bm25_score tie_store ''x''))"
    by simp
  from 1 2 3 show ?thesis by simp
qed

section \<open>Properties of the learning loop\<close>

lemma check_for_adjustments_counts:
  "mistake_counts (check_for_adjustments loop fb a1 a2 now) = mistake_counts loop"
  by (simp add: check_for_adjustments_def Let_def)

lemma check_for_adjustments_types:
  "map adjustment_type (adjustments (check_for_adjustments loop fb a1 a2 now)) =
     map adjustment_type (adjustments loop)
     @ (if counter_get (mistake_counts loop) ''hallucination'' > 0
           \<and> counter_get (mistake_counts loop) ''hallucination'' mod 3 = 0
        then [''retrieval_weight''] else [])
     @ (if counter_get (mistake_counts loop) ''incorrect'' > 0
           \<and> counter_get (mistake_counts loop) ''incorrect'' mod 5 = 0
        then [''prompt_patch''] else [])"
  by (simp add: check_for_adjustments_def Let_def)

lemma record_feedback_count:
  "counter_get (mistake_counts (record_feedback loop fb a1 a2 now)) k =
     counter_get (mistake_counts loop) k
     + (if (rating fb = INCORRECT \<or> rating fb = HALLUCINATION) \<and> rating_value (rating fb) = k
        then 1 else 0)"
  unfolding record_feedback_def Let_def check_for_adjustments_counts
  by (simp add: counter_get_def)

lemma record_feedback_types:
  "map adjustment_type (adjustments (record_feedback loop fb a1 a2 now)) =
     map adjustment_type (adjustments loop)
     @ (if counter_get (mistake_counts (record_feedback loop fb a1 a2 now)) ''hallucination'' > 0
           \<and> counter_get (mistake_counts (record_feedback loop fb a1 a2 now)) ''hallucination''
               mod 3 = 0
        then [''retrieval_weight''] else [])
     @ (if counter_get (mistake_counts (record_feedback loop fb a1 a2 now)) ''incorrect'' > 0
           \<and> counter_get (mistake_counts (record_feedback loop fb a1 a2 now)) ''incorrect''
               mod 5 = 0
        then [''prompt_patch''] else [])"
proof -
  have "adjustments (if c then l\<lparr>mistake_counts := m\<rparr> else l) = adjustments l"
    for c m and l :: LearningLoop
    by simp
  then show ?thesis
    unfolding record_feedback_def Let_def check_for_adjustments_types
      check_for_adjustments_counts
    by simp
qed

lemma record_all_count:
  "counter_get (mistake_counts (record_all loop fbs)) k =
     counter_get (mistake_counts loop) k
     + length (filter (\<lambda>fb. (rating fb = INCORRECT \<or> rating fb = HALLUCINATION)
                             \<and> rating_value (rating fb) = k) fbs)"
  by (induction fbs arbitrary: loop) (simp_all add: record_feedback_count)

lemma counts_five_three:
  "counter_get (mistake_counts five_incorrect_three_hallucinations) ''hallucination'' = 3"
  "counter_get (mistake_counts five_incorrect_three_hallucinations) ''incorrect'' = 5"
  unfolding five_incorrect_three_hallucinations_def record_all_count
  by (simp_all add: fb_of_def new_loop_def counter_get_def)

lemma every_third_hallucination:
  assumes "rating fb = HALLUCINATION"
    and "counter_get (mistake_counts loop) ''hallucination'' = h"
    and "(h + 1) mod 3 = 0"
  shows "\<exists>rest. adjustments (record_feedback loop fb a1 a2 now) =
           adjustments loop @
           [\<lparr> adjustment_id = a1, trigger_feedback_id = feedback_id fb,
              adjustment_type = ''retrieval_weight'',
              adj_description = ''Increasing retrieval confidence threshold after ''
                 @ show_nat (h + 1) @ '' hallucinations detected'',
              parameters = [(''min_score_threshold'', PFloat (0.1 * real ((h + 1) div 3)))],
              applied_at = now \<rparr>] @ rest
         \<and> (\<forall>a \<in> set rest. adjustment_type a = ''prompt_patch'')"
proof -
  let ?l = "loop\<lparr>feedback := feedback loop @ [fb],
                 mistake_counts := (mistake_counts loop)(''hallucination'' \<mapsto> h + 1)\<rparr>"
  have r: "record_feedback loop fb a1 a2 now = check_for_adjustments ?l fb a1 a2 now"
    using assms(1,2) by (simp add: record_feedback_def)
  have c: "counter_get (mistake_counts ?l) ''hallucination'' = h + 1"
    by (simp add: counter_get_def)
  show ?thesis
    unfolding r check_for_adjustments_def Let_def c
    using assms(3) by simp
qed

lemma other_hallucination:
  assumes "rating fb = HALLUCINATION"
    and "counter_get (mistake_counts loop) ''hallucination'' = h"
    and "(h + 1) mod 3 \<noteq> 0"
  shows "\<forall>a \<in> set (drop (length (adjustments loop))
                       (adjustments (record_feedback loop fb a1 a2 now))).
           adjustment_type a = ''prompt_patch''"
proof -
  let ?l = "loop\<lparr>feedback := feedback loop @ [fb],
                 mistake_counts := (mistake_counts loop)(''hallucination'' \<mapsto> h + 1)\<rparr>"
  have r: "record_feedback loop fb a1 a2 now = check_for_adjustments ?l fb a1 a2 now"
    using assms(1,2) by (simp add: record_feedback_def)
  have c: "counter_get (mistake_counts ?l) ''hallucination'' = h + 1"
    by (simp add: counter_get_def)
  show ?thesis
    unfolding r check_for_adjustments_def Let_def c
    using assms(3) by simp
qed

lemma every_fifth_incorrect:
  assumes "rating fb = INCORRECT"
    and "counter_get (mistake_counts loop) ''incorrect'' = i"
    and "(i + 1) mod 5 = 0"
  shows "\<exists>rest. adjustments (record_feedback loop fb a1 a2 now) =
           adjustments loop @ rest @
           [\<lparr> adjustment_id = a2, trigger_feedback_id = feedback_id fb,
              adjustment_type = ''prompt_patch'',
              adj_description = ''Suggesting stricter evidence grounding after ''
                 @ show_nat (i + 1) @ '' incorrect answers'',
              parameters = [(''patch'', PStr ''require_exact_citation'')],
              applied_at = now \<rparr>]
         \<and> (\<forall>a \<in> set rest. adjustment_type a = ''retrieval_weight'')"
proof -
  let ?l = "loop\<lparr>feedback := feedback loop @ [fb],
                 mistake_counts := (mistake_counts loop)(''incorrect'' \<mapsto> i + 1)\<rparr>"
  have r: "record_feedback loop fb a1 a2 now = check_for_adjustments ?l fb a1 a2 now"
    using assms(1,2) by (simp add: record_feedback_def)
  have c: "counter_get (mistake_counts ?l) ''incorrect'' = i + 1"
    by (simp add: counter_get_def)
  show ?thesis
    unfolding r check_for_adjustments_def Let_def c
    using assms(3) by simp
qed

text \<open>
  C7. The call that records the 4th hallucination can produce a new adjustment: after
  five INCORRECT and three HALLUCINATION feedbacks the count of incorrect answers still
  stands at 5, the threshold test of \<open>_check_for_adjustments\<close> runs on every feedback
  whatever its rating, and the fourth HALLUCINATION appends a \<open>prompt_patch\<close>
  adjustment.
\<close>

theorem fourth_hallucination_adds_prompt_patch:
  "counter_get (mistake_counts five_incorrect_three_hallucinations) ''hallucination'' = 3
   \<and> counter_get (mistake_counts
         (record_feedback five_incorrect_three_hallucinations (fb_of HALLUCINATION)
            ''a8'' ''b8'' 8)) ''hallucination'' = 4
   \<and> map adjustment_type (adjustments
         (record_feedback five_incorrect_three_hallucinations (fb_of HALLUCINATION)
            ''a8'' ''b8'' 8))
     = map adjustment_type (adjustments five_incorrect_three_hallucinations)
       @ [''prompt_patch'']"
  by (simp add: record_feedback_types record_feedback_count counts_five_three fb_of_def)

end
